theory Spec2Isabelle
  imports Main "HOL-Library.Word" "HOL-Library.Monad_Syntax"
begin

unbundle bit_operations_syntax

section \<open>Memory model\<close>

text \<open>
  The program works on byte buffers through pointers and lengths.  A buffer is a list of
  bytes, a pointer into it is an offset.  An access outside the buffer and the overflow
  of an \<open>int\<close> counter are undefined behaviour in C: the model returns \<open>None\<close> there,
  so \<open>Some\<close> means that the run stayed inside its buffers.  Sizes (\<open>size_t\<close>) are
  natural numbers; where the code subtracts sizes, the wrap-around modulo \<open>2 ^ 64\<close> is
  written out.
\<close>

type_synonym byte = "8 word"

definition SIZE_MAX :: nat where
  "SIZE_MAX = 2 ^ 64 - 1"

definition INT_MAX :: nat where
  "INT_MAX = 2 ^ 31 - 1"

definition size_sub :: "nat \<Rightarrow> nat \<Rightarrow> nat" where
  "size_sub a b = (a + 2 ^ 64 - b mod 2 ^ 64) mod 2 ^ 64"

definition load8 :: "byte list \<Rightarrow> nat \<Rightarrow> byte option" where
  "load8 mem a = (if a < length mem then Some (mem ! a) else None)"

definition store8 :: "byte list \<Rightarrow> nat \<Rightarrow> byte \<Rightarrow> byte list option" where
  "store8 mem a v = (if a < length mem then Some (mem[a := v]) else None)"

text \<open>\<open>b0 | (b1 << 8)\<close> assigned to a 16-bit variable.\<close>

definition le16 :: "byte \<Rightarrow> byte \<Rightarrow> 16 word" where
  "le16 b0 b1 = ucast b0 OR push_bit 8 (ucast b1)"

text \<open>
  \<open>b0 | (b1 << 8) | (b2 << 16) | (b3 << 24)\<close>: the operands are promoted to \<open>int\<close>,
  the result is a 32-bit \<open>int\<close> (the shift into the sign bit wraps, as GCC defines it)
  and its conversion to \<open>size_t\<close> extends the sign.
\<close>

definition le32_int :: "byte \<Rightarrow> byte \<Rightarrow> byte \<Rightarrow> byte \<Rightarrow> 32 word" where
  "le32_int b0 b1 b2 b3 =
     ucast b0 OR push_bit 8 (ucast b1) OR push_bit 16 (ucast b2) OR push_bit 24 (ucast b3)"

definition int_to_size_t :: "32 word \<Rightarrow> nat" where
  "int_to_size_t w = unat (scast w :: 64 word)"

text \<open>\<open>(n >> k) & 0xFF\<close> stored into a byte.\<close>

definition byte_of_size :: "nat \<Rightarrow> nat \<Rightarrow> byte" where
  "byte_of_size n k = of_nat ((n div 2 ^ k) mod 256)"

section \<open>Checksum calculation\<close>

text \<open>
  The loop of \<open>Caclulate16BitSum\<close>:
  \<^verbatim>\<open>for (int i = 0; i < bufferLength; i += 2) { ... }\<close>
  reads \<open>buffer[i]\<close> and \<open>buffer[i + 1]\<close>, adds the 16-bit value and adds one more when
  the sum has become smaller than the value.  \<open>i += 2\<close> overflows \<open>int\<close> when \<open>i + 2\<close>
  exceeds \<open>INT_MAX\<close>.
\<close>

definition add_carry :: "16 word \<Rightarrow> 16 word \<Rightarrow> 16 word" where
  "add_carry checksumNew currentValue =
     (let s = checksumNew + currentValue in if s < currentValue then s + 1 else s)"

function sum16_loop :: "byte list \<Rightarrow> nat \<Rightarrow> nat \<Rightarrow> nat \<Rightarrow> 16 word \<Rightarrow> 16 word option" where
  "sum16_loop mem buffer bufferLength i checksumNew =
     (if i < bufferLength then
        (case load8 mem (buffer + i) of
           None \<Rightarrow> None
         | Some b0 \<Rightarrow>
            (case load8 mem (buffer + i + 1) of
               None \<Rightarrow> None
             | Some b1 \<Rightarrow>
                 if INT_MAX < i + 2 then None
                 else sum16_loop mem buffer bufferLength (i + 2)
                        (add_carry checksumNew (le16 b0 b1))))
      else Some checksumNew)"
  by pat_completeness auto
termination
  by (relation "measure (\<lambda>(mem, buffer, bufferLength, i, checksumNew). bufferLength - i)") auto

text \<open>The value \<open>checksumNew\<close> has after the loop and the inversion.\<close>

definition checksum16 :: "byte list \<Rightarrow> nat \<Rightarrow> nat \<Rightarrow> bool \<Rightarrow> 16 word option" where
  "checksum16 mem buffer bufferLength inverted =
     do {
       checksumNew \<leftarrow> sum16_loop mem buffer bufferLength 0 0;
       Some (if inverted then 0xFFFF - checksumNew else checksumNew)
     }"

text \<open>
  \<open>Caclulate16BitSum\<close> reads the old checksum at \<open>checksumBuffer\<close>, computes the new one
  and stores it (low byte first) when it differs.  The name and the partition index are
  only printed and are left out.
\<close>

definition Caclulate16BitSum ::
    "byte list \<Rightarrow> nat \<Rightarrow> nat \<Rightarrow> nat \<Rightarrow> bool \<Rightarrow> byte list option" where
  "Caclulate16BitSum mem buffer bufferLength checksumBuffer inverted =
     do {
       c0 \<leftarrow> load8 mem checksumBuffer;
       c1 \<leftarrow> load8 mem (checksumBuffer + 1);
       let checksumOld = le16 c0 c1;
       checksumNew \<leftarrow> checksum16 mem buffer bufferLength inverted;
       if checksumNew \<noteq> checksumOld then
         do {
           mem1 \<leftarrow> store8 mem checksumBuffer (ucast (checksumNew AND 0xFF));
           store8 mem1 (checksumBuffer + 1) (ucast (drop_bit 8 checksumNew AND 0xFF))
         }
       else Some mem
     }"

text \<open>
  The checksum as the specification words it: the bytes are paired into little-endian
  16-bit words, the words are added one after the other into a 16-bit sum, with one
  added whenever the new sum is smaller than the word just added; the inverted mode
  returns \<open>0xFFFF\<close> minus the sum.
\<close>

fun le_words :: "byte list \<Rightarrow> 16 word list" where
  "le_words (b0 # b1 # bs) = le16 b0 b1 # le_words bs"
| "le_words bs = []"

definition spec_Sum16Carry :: "byte list \<Rightarrow> bool \<Rightarrow> 16 word" where
  "spec_Sum16Carry bytes inverted =
     (let s = foldl (\<lambda>s w. if s + w < w then s + w + 1 else s + w) 0 (le_words bytes)
      in if inverted then 0xFFFF - s else s)"

section \<open>Devices\<close>

text \<open>
  The PEM texts of the key constants are only handed to the cryptographic library; the
  model keeps their names.
\<close>

datatype pem =
    M30PrivateKey | M30PublicKey
  | M32PrivateKey | M32PublicKey
  | M60PrivateKey | M60PublicKey

record M32FirmwareUtilDeviceInfoType =
  Name :: string
  Description :: string
  RecoveryHeaderStart :: string
  FirmwareKey :: string
  PrivateKey :: pem
  PublicKey :: pem
  Passphrase :: string

definition M30 :: M32FirmwareUtilDeviceInfoType where
  "M30 = \<lparr>Name = ''M30'',
          Description = ''D-Link AQUILA PRO AI AX3000 Smart Mesh Router'',
          RecoveryHeaderStart = ''DLK6E6110001'',
          FirmwareKey = ''b4517d9b98e04d9f075f5e78c743e097'',
          PrivateKey = M30PrivateKey, PublicKey = M30PublicKey, Passphrase = ''wrpd''\<rparr>"

definition M32 :: M32FirmwareUtilDeviceInfoType where
  "M32 = \<lparr>Name = ''M32'',
          Description = ''D-Link EAGLE PRO AI AX3200 Mesh-System'',
          RecoveryHeaderStart = ''DLK6E6010001'',
          FirmwareKey = ''6b29f1d663a21b35fb45b69a42649f5e'',
          PrivateKey = M32PrivateKey, PublicKey = M32PublicKey, Passphrase = ''wrpd''\<rparr>"

definition R32 :: M32FirmwareUtilDeviceInfoType where
  "R32 = \<lparr>Name = ''R32'',
          Description = ''D-Link EAGLE PRO AI AX3200 Smart Router'',
          RecoveryHeaderStart = ''DLK6E6015001'',
          FirmwareKey = ''6b29f1d663a21b35fb45b69a42649f5e'',
          PrivateKey = M32PrivateKey, PublicKey = M32PublicKey, Passphrase = ''wrpd''\<rparr>"

definition M60 :: M32FirmwareUtilDeviceInfoType where
  "M60 = \<lparr>Name = ''M60'',
          Description = ''D-Link AX6000 Wi-Fi 6 Smart Mesh Router'',
          RecoveryHeaderStart = ''DLK6E8202001'',
          FirmwareKey = ''c5f8a1e22f808abc84f2e4a6fa5f10bb'',
          PrivateKey = M60PrivateKey, PublicKey = M60PublicKey, Passphrase = ''wrpd''\<rparr>"

definition M32FirmwareUtilDeviceInfos :: "M32FirmwareUtilDeviceInfoType list" where
  "M32FirmwareUtilDeviceInfos = [M30, M32, R32, M60]"

text \<open>The bytes of a C string, without the trailing zero.\<close>

definition bytes_of :: "string \<Rightarrow> byte list" where
  "bytes_of s = map of_char s"

section \<open>Files and results\<close>

text \<open>
  What the program does not decide: whether \<open>malloc\<close> of a size, \<open>fread\<close> and the
  writing of a named file succeed, whether debug files were asked for on the command
  line, the bytes found in freshly allocated memory (\<open>heap\<close>), the value a caller
  reads from the \<open>k\<close>-th call of a function that ends without a \<open>return\<close> statement
  (\<open>no_return_value\<close>), and the byte found in element \<open>i\<close> of the local array
  \<open>ivHex\<close>, which is not initialised, where \<open>sscanf\<close> has not stored a value that the
  two characters at its input determine (\<open>unconverted\<close>).
\<close>

record environment =
  malloc_ok :: "nat \<Rightarrow> bool"
  fread_ok :: bool
  fwrite_ok :: "string \<Rightarrow> bool"
  WriteDebugFiles :: bool
  heap :: "nat \<Rightarrow> byte"
  no_return_value :: "nat \<Rightarrow> int"
  unconverted :: "nat \<Rightarrow> byte"

text \<open>
  An operation returns its \<open>status\<close> (0 or 1).  \<open>outfile\<close> is what it wrote to the
  output file, \<open>diag\<close> names the message of the failing branch.
\<close>

datatype diagnostic =
    UnableToAllocate
  | UnableToRead
  | NoPartitionsFound
  | ErrorDuringWriting
  | UnableToCreateHeader
  | UnableToCreateSignature
  | ErrorDuringWritingDebug
  | UnableToEncrypt
  | UnableToGetBlockLength
  | BlockOffsetOutOfRange
  | VerificationFailed
  | UnableToConvertIv
  | DecryptionFailed

record result =
  status :: int
  outfile :: "byte list option"
  diag :: "diagnostic option"

definition failed :: "diagnostic \<Rightarrow> result" where
  "failed d = \<lparr>status = 1, outfile = None, diag = Some d\<rparr>"

definition succeeded :: "byte list \<Rightarrow> result" where
  "succeeded out = \<lparr>status = 0, outfile = Some out, diag = None\<rparr>"

section \<open>Updating the headers of a recovery image\<close>

definition M32_FIRMWARE_UTIL_FW_HEADER_LENGTH :: nat where
  "M32_FIRMWARE_UTIL_FW_HEADER_LENGTH = 80"

definition M32_FIRMWARE_UTIL_MAX_PARTITIONS :: nat where
  "M32_FIRMWARE_UTIL_MAX_PARTITIONS = 16"

definition M32_FIRMWARE_UTIL_FW_DATA_LENGTH_OFFSET :: nat where
  "M32_FIRMWARE_UTIL_FW_DATA_LENGTH_OFFSET = 0x2C"

definition CHECKUM_PATCHER_DATA_CHECKSUM_OFFSET :: nat where
  "CHECKUM_PATCHER_DATA_CHECKSUM_OFFSET = 0x0E"

definition CHECKUM_PATCHER_HEADER_CHECKSUM_OFFSET :: nat where
  "CHECKUM_PATCHER_HEADER_CHECKSUM_OFFSET = M32_FIRMWARE_UTIL_FW_HEADER_LENGTH - 2"

text \<open>\<open>memcmp(&buffer[bufferIndex], pattern, n) == 0\<close>, reading \<open>n\<close> bytes of the buffer.\<close>

definition memcmp_eq :: "byte list \<Rightarrow> nat \<Rightarrow> byte list \<Rightarrow> bool option" where
  "memcmp_eq buffer bufferIndex pattern =
     (if bufferIndex + length pattern \<le> length buffer
      then Some (take (length pattern) (drop bufferIndex buffer) = pattern)
      else None)"

text \<open>
  The search loop.  \<open>bound\<close> is \<open>st_size - 80\<close>; the array \<open>headerAddresses\<close> has 16
  entries, initially \<open>SIZE_MAX\<close>.  The loop is left when the 16th match is stored.
\<close>

function find_partitions ::
    "byte list \<Rightarrow> byte list \<Rightarrow> nat \<Rightarrow> nat \<Rightarrow> nat list \<Rightarrow> nat \<Rightarrow> (nat list \<times> nat) option" where
  "find_partitions buffer magic bound bufferIndex headerAddresses partitionCount =
     (if bufferIndex < bound then
        (case memcmp_eq buffer bufferIndex magic of
           None \<Rightarrow> None
         | Some True \<Rightarrow>
             if partitionCount + 1 = M32_FIRMWARE_UTIL_MAX_PARTITIONS
             then Some (headerAddresses[partitionCount := bufferIndex], partitionCount + 1)
             else find_partitions buffer magic bound (bufferIndex + 1)
                    (headerAddresses[partitionCount := bufferIndex]) (partitionCount + 1)
         | Some False \<Rightarrow>
             find_partitions buffer magic bound (bufferIndex + 1) headerAddresses partitionCount)
      else Some (headerAddresses, partitionCount))"
  by pat_completeness auto
termination
  by (relation "measure (\<lambda>(buffer, magic, bound, bufferIndex, hs, c). bound - bufferIndex)") auto

definition scan_image :: "M32FirmwareUtilDeviceInfoType \<Rightarrow> byte list \<Rightarrow> (nat list \<times> nat) option" where
  "scan_image device file =
     find_partitions file (bytes_of (RecoveryHeaderStart device))
       (size_sub (length file) M32_FIRMWARE_UTIL_FW_HEADER_LENGTH) 0
       (replicate M32_FIRMWARE_UTIL_MAX_PARTITIONS SIZE_MAX) 0"

text \<open>The length of a partition's data, as the second loop computes it.\<close>

definition partition_length :: "nat list \<Rightarrow> nat \<Rightarrow> nat \<Rightarrow> nat" where
  "partition_length headerAddresses st_size partn =
     size_sub
       (if partn + 1 < M32_FIRMWARE_UTIL_MAX_PARTITIONS
           \<and> headerAddresses ! (partn + 1) \<noteq> SIZE_MAX
        then size_sub (headerAddresses ! (partn + 1)) (headerAddresses ! partn)
        else size_sub st_size (headerAddresses ! partn))
       M32_FIRMWARE_UTIL_FW_HEADER_LENGTH"

text \<open>The body of the second loop, for one partition (the loop variable \<open>partition\<close> is \<open>partn\<close> here).\<close>

definition update_partition :: "byte list \<Rightarrow> nat list \<Rightarrow> nat \<Rightarrow> nat \<Rightarrow> byte list option" where
  "update_partition buffer headerAddresses st_size partn =
     do {
       let partitionStart = headerAddresses ! partn;
       let partitionLength = partition_length headerAddresses st_size partn;
       b0 \<leftarrow> load8 buffer (partitionStart + M32_FIRMWARE_UTIL_FW_DATA_LENGTH_OFFSET);
       b1 \<leftarrow> load8 buffer (partitionStart + M32_FIRMWARE_UTIL_FW_DATA_LENGTH_OFFSET + 1);
       b2 \<leftarrow> load8 buffer (partitionStart + M32_FIRMWARE_UTIL_FW_DATA_LENGTH_OFFSET + 2);
       b3 \<leftarrow> load8 buffer (partitionStart + M32_FIRMWARE_UTIL_FW_DATA_LENGTH_OFFSET + 3);
       let partitionLengthOld = int_to_size_t (le32_int b0 b1 b2 b3);
       buffer1 \<leftarrow>
         (if partitionLengthOld \<noteq> partitionLength then
            do {
              m0 \<leftarrow> store8 buffer (partitionStart + M32_FIRMWARE_UTIL_FW_DATA_LENGTH_OFFSET)
                     (byte_of_size partitionLength 0);
              m1 \<leftarrow> store8 m0 (partitionStart + M32_FIRMWARE_UTIL_FW_DATA_LENGTH_OFFSET + 1)
                     (byte_of_size partitionLength 8);
              m2 \<leftarrow> store8 m1 (partitionStart + M32_FIRMWARE_UTIL_FW_DATA_LENGTH_OFFSET + 2)
                     (byte_of_size partitionLength 16);
              store8 m2 (partitionStart + M32_FIRMWARE_UTIL_FW_DATA_LENGTH_OFFSET + 3)
                (byte_of_size partitionLength 24)
            }
          else Some buffer);
       buffer2 \<leftarrow>
         Caclulate16BitSum buffer1 (partitionStart + M32_FIRMWARE_UTIL_FW_HEADER_LENGTH)
           partitionLength (partitionStart + CHECKUM_PATCHER_DATA_CHECKSUM_OFFSET) False;
       Caclulate16BitSum buffer2 partitionStart CHECKUM_PATCHER_HEADER_CHECKSUM_OFFSET
         (partitionStart + CHECKUM_PATCHER_HEADER_CHECKSUM_OFFSET) True
     }"

function update_partitions ::
    "byte list \<Rightarrow> nat list \<Rightarrow> nat \<Rightarrow> nat \<Rightarrow> nat \<Rightarrow> byte list option" where
  "update_partitions buffer headerAddresses st_size partitionCount partn =
     (if partn < partitionCount then
        (case update_partition buffer headerAddresses st_size partn of
           None \<Rightarrow> None
         | Some buffer' \<Rightarrow>
             update_partitions buffer' headerAddresses st_size partitionCount (partn + 1))
      else Some buffer)"
  by pat_completeness auto
termination
  by (relation "measure (\<lambda>(buffer, hs, st_size, partitionCount, partn).
        partitionCount - partn)") auto

text \<open>
  \<open>UpdateHeaderInRecoveryImage\<close>: \<open>file\<close> is the content of the input file, which
  \<open>fread\<close> copies into the buffer of \<open>st_size\<close> bytes.
\<close>

definition UpdateHeaderInRecoveryImage ::
    "environment \<Rightarrow> string \<Rightarrow> M32FirmwareUtilDeviceInfoType \<Rightarrow> byte list \<Rightarrow> result option" where
  "UpdateHeaderInRecoveryImage env outputFile device file =
     (if \<not> malloc_ok env (length file) then Some (failed UnableToAllocate)
      else if \<not> fread_ok env then Some (failed UnableToRead)
      else
        do {
          (headerAddresses, partitionCount) \<leftarrow> scan_image device file;
          buffer \<leftarrow> update_partitions file headerAddresses (length file) partitionCount 0;
          Some (if partitionCount = 0 then failed NoPartitionsFound
                else if \<not> fwrite_ok env outputFile then failed ErrorDuringWriting
                else succeeded buffer)
        })"

text \<open>The offsets the search has recorded and their number, for stating properties.\<close>

definition scan_offsets :: "M32FirmwareUtilDeviceInfoType \<Rightarrow> byte list \<Rightarrow> nat list option" where
  "scan_offsets device file =
     (case scan_image device file of
        None \<Rightarrow> None
      | Some (headerAddresses, partitionCount) \<Rightarrow> Some (take partitionCount headerAddresses))"


text \<open>
  The scan as the specification words it: every offset of the image at which the magic
  string occurs, in ascending order.
\<close>

definition spec_magic_positions :: "byte list \<Rightarrow> byte list \<Rightarrow> nat list" where
  "spec_magic_positions magic img =
     filter (\<lambda>i. take (length magic) (drop i img) = magic) [0..<length img]"

section \<open>Concrete inputs\<close>

text \<open>An environment in which every system call succeeds and no debug files are written.\<close>

definition env_ok :: environment where
  "env_ok = \<lparr>malloc_ok = (\<lambda>size. True), fread_ok = True, fwrite_ok = (\<lambda>name. True),
             WriteDebugFiles = False, heap = (\<lambda>address. 0), no_return_value = (\<lambda>k. 0),
             unconverted = (\<lambda>i. 0)\<rparr>"

text \<open>A recovery image for the M32 with one partition of four bytes.\<close>

definition image_one :: "byte list" where
  "image_one = bytes_of ''DLK6E6010001'' @ replicate 68 0 @ [1, 2, 3, 4]"

definition image_one_repaired :: "byte list" where
  "image_one_repaired =
     bytes_of ''DLK6E6010001'' @ [0, 0, 4, 6] @ replicate 28 0 @ [4, 0, 0, 0]
       @ replicate 30 0 @ [146, 174, 1, 2, 3, 4]"

text \<open>An image that is a partition header and nothing else: 80 bytes.\<close>

definition image_header_only :: "byte list" where
  "image_header_only = bytes_of ''DLK6E6010001'' @ replicate 68 0"


section \<open>The headers of the factory image\<close>

definition M32_FIRMWARE_HEADER_LENGTH :: nat where
  "M32_FIRMWARE_HEADER_LENGTH = 16"

definition M32_FIRMWARE_SIGNATURE_LENGTH :: nat where
  "M32_FIRMWARE_SIGNATURE_LENGTH = 256"

definition M32_FIRMWARE_INITIALIZATION_VECTOR_LENGTH :: nat where
  "M32_FIRMWARE_INITIALIZATION_VECTOR_LENGTH = 33"

definition M32_FIRMWARE_SALT_INFO_LENGTH :: nat where
  "M32_FIRMWARE_SALT_INFO_LENGTH = 16"

definition M32_FIRMWARE_DECRYPTION_INFO_LENGTH :: nat where
  "M32_FIRMWARE_DECRYPTION_INFO_LENGTH =
     M32_FIRMWARE_INITIALIZATION_VECTOR_LENGTH + M32_FIRMWARE_SALT_INFO_LENGTH"

definition AES_BLOCK_SIZE :: nat where
  "AES_BLOCK_SIZE = 16"

definition M32FirmwareUtilHeaderStart :: string where
  "M32FirmwareUtilHeaderStart = ''MH01''"

text \<open>Reading and writing a span of a buffer; a span that leaves the buffer gives \<open>None\<close>.\<close>

definition read_bytes :: "byte list \<Rightarrow> nat \<Rightarrow> nat \<Rightarrow> byte list option" where
  "read_bytes mem a n = (if a + n \<le> length mem then Some (take n (drop a mem)) else None)"

definition store_bytes :: "byte list \<Rightarrow> nat \<Rightarrow> byte list \<Rightarrow> byte list option" where
  "store_bytes mem a bs =
     (if a + length bs \<le> length mem
      then Some (take a mem @ bs @ drop (a + length bs) mem) else None)"

text \<open>
  The loop that ends both header writers, on the 16 bytes of the header:
  \<^verbatim>\<open>for (position = 0; position < 14; position++)
    { buffer[14] += buffer[position]; buffer[15] ^= buffer[position]; }\<close>
\<close>

definition header_sums :: "byte list \<Rightarrow> byte list" where
  "header_sums h =
     foldl (\<lambda>h position. (h[14 := h ! 14 + h ! position])[15 := h ! 15 XOR h ! position])
       h [0..<14]"

text \<open>
  The header writers work on the 16 bytes at \<open>buffer\<close>, in the order of the source, and
  return 0.
\<close>

definition CreateAes128CbcEncryptionHeader ::
    "byte list \<Rightarrow> nat \<Rightarrow> nat \<Rightarrow> (byte list \<times> int) option" where
  "CreateAes128CbcEncryptionHeader mem buffer imageSize =
     do {
       h0 \<leftarrow> read_bytes mem buffer 16;
       let h1 = bytes_of M32FirmwareUtilHeaderStart @ drop (length M32FirmwareUtilHeaderStart) h0;
       let h2 = h1[4 := 0x21, 5 := 0x00, 6 := 0x00, 7 := 0x00];
       let h3 = h2[8 := byte_of_size imageSize 0, 9 := byte_of_size imageSize 8,
                   10 := byte_of_size imageSize 16, 11 := byte_of_size imageSize 24];
       let h4 = h3[12 := 0x2B, 13 := 0x1A];
       let h5 = h4[14 := 0, 15 := 0];
       mem' \<leftarrow> store_bytes mem buffer (header_sums h5);
       Some (mem', 0)
     }"

definition CreateSha512VerificatioinHeader ::
    "byte list \<Rightarrow> nat \<Rightarrow> nat \<Rightarrow> (byte list \<times> int) option" where
  "CreateSha512VerificatioinHeader mem buffer imageSize =
     do {
       h0 \<leftarrow> read_bytes mem buffer 16;
       let h1 = bytes_of M32FirmwareUtilHeaderStart @ drop (length M32FirmwareUtilHeaderStart) h0;
       let h2 = h1[4 := byte_of_size imageSize 0, 5 := byte_of_size imageSize 8,
                   6 := byte_of_size imageSize 16, 7 := byte_of_size imageSize 24];
       let h3 = h2[8 := 0x00, 9 := 0x01, 10 := 0x00, 11 := 0x00];
       let h4 = h3[12 := 0x2B, 13 := 0x1A];
       let h5 = h4[14 := 0, 15 := 0];
       mem' \<leftarrow> store_bytes mem buffer (header_sums h5);
       Some (mem', 0)
     }"

text \<open>
  The length decoders return the status and the value of \<open>*dataLength\<close> afterwards.
  The magic bytes are compared one after the other, so a later byte is only read when
  the earlier ones matched.
\<close>

definition header_has_magic :: "byte list \<Rightarrow> nat \<Rightarrow> bool option" where
  "header_has_magic mem header =
     do {
       b0 \<leftarrow> load8 mem header;
       if b0 \<noteq> of_char CHR ''M'' then Some False
       else do {
         b1 \<leftarrow> load8 mem (header + 1);
         if b1 \<noteq> of_char CHR ''H'' then Some False
         else do {
           b2 \<leftarrow> load8 mem (header + 2);
           if b2 \<noteq> of_char CHR ''0'' then Some False
           else do {
             b3 \<leftarrow> load8 mem (header + 3);
             Some (b3 = of_char CHR ''1'')
           }
         }
       }
     }"

definition GetDataLengthFromVerificationHeader ::
    "byte list \<Rightarrow> nat \<Rightarrow> nat \<Rightarrow> (int \<times> nat) option" where
  "GetDataLengthFromVerificationHeader mem header dataLength =
     do {
       magic \<leftarrow> header_has_magic mem header;
       if magic then
         do {
           b4 \<leftarrow> load8 mem (header + 4);
           b5 \<leftarrow> load8 mem (header + 5);
           b6 \<leftarrow> load8 mem (header + 6);
           b7 \<leftarrow> load8 mem (header + 7);
           Some (0, int_to_size_t (le32_int b4 b5 b6 b7))
         }
       else Some (1, dataLength)
     }"

definition GetDataLengthFromEncryptionHeader ::
    "byte list \<Rightarrow> nat \<Rightarrow> nat \<Rightarrow> (int \<times> nat) option" where
  "GetDataLengthFromEncryptionHeader mem header dataLength =
     do {
       magic \<leftarrow> header_has_magic mem header;
       if magic then
         do {
           b8 \<leftarrow> load8 mem (header + 8);
           b9 \<leftarrow> load8 mem (header + 9);
           b10 \<leftarrow> load8 mem (header + 10);
           b11 \<leftarrow> load8 mem (header + 11);
           Some (0, int_to_size_t (le32_int b8 b9 b10 b11))
         }
       else Some (1, dataLength)
     }"

text \<open>
  The two checksum bytes as the specification words them: the sum modulo 256 and the
  exclusive or of the bytes given.
\<close>

definition spec_ByteSumXor :: "byte list \<Rightarrow> byte \<times> byte" where
  "spec_ByteSumXor bytes = (sum_list bytes, foldr (XOR) bytes 0)"

section \<open>The cryptographic library\<close>

text \<open>
  OpenSSL is not part of the program.  Its calls are parameters of the model, one field
  per group of calls that the program makes in a row:
  \<^item> \<open>sha512\<close>: \<open>SHA512_Init\<close>, \<open>SHA512_Update\<close>, \<open>SHA512_Final\<close>; \<open>None\<close> when one fails;
  \<^item> \<open>pem_read_private_key\<close>: \<open>BIO_new_mem_buf\<close> and \<open>PEM_read_bio_RSAPrivateKey\<close> with
    the passphrase; \<open>None\<close> when the key material does not parse or decrypt;
  \<^item> \<open>pem_read_public_key\<close>: \<open>BIO_new_mem_buf\<close> and \<open>PEM_read_bio_PUBKEY\<close>;
  \<^item> \<open>evp_sign\<close>: \<open>EVP_PKEY_new\<close> to \<open>EVP_SignFinal\<close> with SHA-512 on the bytes given;
    the signature, whose length is \<open>signatureLength\<close>, or \<open>None\<close> when a call fails;
  \<^item> \<open>evp_digest_verify\<close>: \<open>EVP_MD_CTX_new\<close> to \<open>EVP_DigestVerifyFinal\<close>; the value
    returned (1 verified, 0 not verified, negative on an error);
  \<^item> \<open>evp_bytes_to_key\<close>: \<open>EVP_BytesToKey\<close> with AES-128-CBC and SHA-256, one round; the
    key and the derived initialization vector;
  \<^item> \<open>aes_128_cbc_encrypt\<close>: \<open>EVP_CIPHER_CTX_new\<close>, \<open>EVP_EncryptInit_ex\<close>,
    \<open>EVP_EncryptUpdate\<close>, \<open>EVP_EncryptFinal_ex\<close>; the padded ciphertext or \<open>None\<close>;
  \<^item> \<open>aes_128_cbc_decrypt\<close>: the same for decryption; \<open>None\<close> also when the padding is
    wrong.
\<close>

record ('priv, 'pub) openssl =
  sha512 :: "byte list \<Rightarrow> byte list option"
  pem_read_private_key :: "pem \<Rightarrow> string \<Rightarrow> 'priv option"
  pem_read_public_key :: "pem \<Rightarrow> 'pub option"
  evp_sign :: "'priv \<Rightarrow> byte list \<Rightarrow> byte list option"
  evp_digest_verify :: "'pub \<Rightarrow> byte list \<Rightarrow> byte list \<Rightarrow> int"
  evp_bytes_to_key :: "byte list \<Rightarrow> string \<Rightarrow> byte list \<times> byte list"
  aes_128_cbc_encrypt :: "byte list \<Rightarrow> byte list \<Rightarrow> byte list \<Rightarrow> byte list option"
  aes_128_cbc_decrypt :: "byte list \<Rightarrow> byte list \<Rightarrow> byte list \<Rightarrow> byte list option"

text \<open>
  What the round trip needs of the library for a device: a signature made with the
  device's private key verifies with its public key, and decryption undoes encryption
  under the same key and initialization vector, the ciphertext being the plaintext
  padded to the next multiple of 16 bytes.
\<close>

definition crypto_ok :: "('priv, 'pub) openssl \<Rightarrow> M32FirmwareUtilDeviceInfoType \<Rightarrow> bool" where
  "crypto_ok c device \<longleftrightarrow>
     (\<forall>priv digest sig.
        pem_read_private_key c (PrivateKey device) (Passphrase device) = Some priv
        \<and> evp_sign c priv digest = Some sig
        \<longrightarrow> (\<exists>pub. pem_read_public_key c (PublicKey device) = Some pub
                  \<and> evp_digest_verify c pub digest sig \<noteq> 0))
     \<and> (\<forall>k iv plain encrypted.
          aes_128_cbc_encrypt c k iv plain = Some encrypted
          \<longrightarrow> aes_128_cbc_decrypt c k iv encrypted = Some plain
              \<and> length encrypted = 16 * (length plain div 16 + 1))"

section \<open>Signatures\<close>

text \<open>
  \<open>CreateSha512VerificatioinSignature\<close> hashes \<open>imageSize\<close> bytes at \<open>buffer\<close>, signs the
  digest and lets the library write the signature behind the data.  It sets its local
  variable \<open>status\<close> and ends without a \<open>return\<close> statement: the model returns the
  buffer, the final \<open>status\<close> and, as the value the caller reads, the \<open>indeterminate\<close>
  value it is given.
\<close>

definition CreateSha512VerificatioinSignature ::
    "('priv, 'pub) openssl \<Rightarrow> int \<Rightarrow> byte list \<Rightarrow> nat \<Rightarrow> nat \<Rightarrow> M32FirmwareUtilDeviceInfoType
      \<Rightarrow> (byte list \<times> int \<times> int) option" where
  "CreateSha512VerificatioinSignature c indeterminate mem buffer imageSize device =
     do {
       data \<leftarrow> read_bytes mem buffer imageSize;
       (case sha512 c data of
          None \<Rightarrow> Some (mem, 1, indeterminate)
        | Some digest \<Rightarrow>
            (case pem_read_private_key c (PrivateKey device) (Passphrase device) of
               None \<Rightarrow> Some (mem, 1, indeterminate)
             | Some rsaPrivateKey \<Rightarrow>
                 (case evp_sign c rsaPrivateKey digest of
                    None \<Rightarrow> Some (mem, 1, indeterminate)
                  | Some sig \<Rightarrow>
                      do {
                        mem' \<leftarrow> store_bytes mem (buffer + imageSize) sig;
                        Some (mem',
                              if length sig \<noteq> M32_FIRMWARE_SIGNATURE_LENGTH then 1 else 0,
                              indeterminate)
                      })))
     }"

text \<open>
  \<open>VerifySha512Signture\<close> takes the 256 bytes behind the data as the signature.  Only
  the value 0 of \<open>EVP_DigestVerifyFinal\<close> makes it fail.
\<close>

definition VerifySha512Signture ::
    "('priv, 'pub) openssl \<Rightarrow> byte list \<Rightarrow> nat \<Rightarrow> nat \<Rightarrow> M32FirmwareUtilDeviceInfoType
      \<Rightarrow> int option" where
  "VerifySha512Signture c mem buffer bufferLength device =
     do {
       data \<leftarrow> read_bytes mem buffer bufferLength;
       (case sha512 c data of
          None \<Rightarrow> Some 1
        | Some digest \<Rightarrow>
            (case pem_read_public_key c (PublicKey device) of
               None \<Rightarrow> Some 1
             | Some publicKey \<Rightarrow>
                 do {
                   sig \<leftarrow> read_bytes mem (buffer + bufferLength) M32_FIRMWARE_SIGNATURE_LENGTH;
                   Some (if evp_digest_verify c publicKey digest sig = 0 then 1 else 0)
                 }))
     }"

section \<open>Encryption\<close>

definition salt :: "byte list" where
  "salt = [0x65, 0xFC, 0x43, 0xBC, 0x67, 0xA3, 0x23, 0x35]"

text \<open>The conversion of a \<open>size_t\<close> to the \<open>int\<close> parameter of the library.\<close>

definition size_t_to_int :: "nat \<Rightarrow> int" where
  "size_t_to_int n = sint (word_of_nat n :: 32 word)"

text \<open>
  \<open>EncryptAes128Cbc\<close> writes \<open>Salted__\<close> and the fixed salt, derives the key (the
  derived initialization vector is not used) and encrypts with \<open>ivHex\<close>.  It returns
  the buffer, the status and \<open>*encryptedDataLength\<close>.  A negative length handed to the
  library and a ciphertext longer than \<open>INT_MAX\<close> are outside the model.
\<close>

definition EncryptAes128Cbc ::
    "('priv, 'pub) openssl \<Rightarrow> byte list \<Rightarrow> nat \<Rightarrow> nat \<Rightarrow> nat \<Rightarrow> nat \<Rightarrow> string \<Rightarrow> byte list
      \<Rightarrow> (byte list \<times> int \<times> int) option" where
  "EncryptAes128Cbc c mem plainData plainDataLength outputBuffer saltBuffer keyString ivHex =
     do {
       mem1 \<leftarrow> store_bytes mem saltBuffer (bytes_of ''Salted__'');
       mem2 \<leftarrow> store_bytes mem1 (saltBuffer + 8) salt;
       let (k, iv) = evp_bytes_to_key c salt keyString;
       if size_t_to_int plainDataLength < 0 then None
       else
         do {
           plain \<leftarrow> read_bytes mem2 plainData (nat (size_t_to_int plainDataLength));
           (case aes_128_cbc_encrypt c k ivHex plain of
              None \<Rightarrow> Some (mem2, 1, 0)
            | Some encrypted \<Rightarrow>
                if INT_MAX < length encrypted then None
                else
                  do {
                    mem3 \<leftarrow> store_bytes mem2 outputBuffer encrypted;
                    Some (mem3, 0, int (length encrypted))
                  })
         }
     }"

text \<open>
  \<open>DecryptAes128Cbc\<close> takes the salt from offset 8 of the encrypted data, skips 16
  bytes and decrypts the rest into the output buffer.  It returns the output buffer and
  the status.
\<close>

definition DecryptAes128Cbc ::
    "('priv, 'pub) openssl \<Rightarrow> byte list \<Rightarrow> nat \<Rightarrow> nat \<Rightarrow> byte list \<Rightarrow> string \<Rightarrow> byte list
      \<Rightarrow> (byte list \<times> int) option" where
  "DecryptAes128Cbc c mem encryptedData encryptedLength outputBuffer keyString ivHex =
     do {
       s \<leftarrow> read_bytes mem (encryptedData + 8) 8;
       let (k, iv) = evp_bytes_to_key c s keyString;
       let encryptedLength' = size_sub encryptedLength 16;
       if size_t_to_int encryptedLength' < 0 then None
       else
         do {
           encrypted \<leftarrow> read_bytes mem (encryptedData + 16) (nat (size_t_to_int encryptedLength'));
           (case aes_128_cbc_decrypt c k ivHex encrypted of
              None \<Rightarrow> Some (outputBuffer, 1)
            | Some plain \<Rightarrow>
                do {
                  out \<leftarrow> store_bytes outputBuffer 0 plain;
                  Some (out, 0)
                })
         }
     }"

section \<open>The initialization vector as text\<close>

definition hex_digit :: "nat \<Rightarrow> byte" where
  "hex_digit d = (if d < 10 then of_nat (48 + d) else of_nat (87 + d))"

text \<open>
  \<open>sprintf(&buffer[2 * i], "%02x", iv[i])\<close> writes two lower-case digits and a zero
  byte.
\<close>

fun write_hex :: "byte list \<Rightarrow> nat \<Rightarrow> byte list \<Rightarrow> byte list option" where
  "write_hex mem a [] = Some mem"
| "write_hex mem a (b # bs) =
     do {
       mem' \<leftarrow> store_bytes mem a [hex_digit (unat b div 16), hex_digit (unat b mod 16), 0];
       write_hex mem' (a + 2) bs
     }"

definition WriteAes128CbcIvToBuffer ::
    "byte list \<Rightarrow> nat \<Rightarrow> byte list \<Rightarrow> (byte list \<times> int) option" where
  "WriteAes128CbcIvToBuffer mem buffer iv =
     do {
       mem1 \<leftarrow> write_hex mem buffer iv;
       mem2 \<leftarrow> store8 mem1 (buffer + 2 * length iv) 0x0A;
       Some (mem2, 0)
     }"

text \<open>
  \<open>sscanf(&ivAscii[i * 2], "%2hhx", &ivHex[i])\<close> reads at most two characters of an
  optionally signed hexadecimal number and stores its value modulo 256:
  \<^item> two hexadecimal digits give \<open>16 * h + l\<close>;
  \<^item> a digit followed by another character gives the value of the digit;
  \<^item> a sign followed by a digit gives the value of the digit, negated after \<open>-\<close>;
  \<^item> in every other case the element holds \<open>other\<close>, a byte that the input's two
    characters do not determine: nothing is stored when the input starts with a
    character that is no digit, sign or white space or with a sign without digit, the C
    library decides for the prefix \<open>0x\<close> without digits, and behind white space later
    characters are converted.

  The return value of \<open>sscanf\<close> is not looked at, and \<open>ConvertAsciiIvToHexArray\<close>
  returns 0 in every case.  That \<open>sscanf\<close> finds the end of its input string inside the
  buffer is taken for granted.
\<close>

definition hex_value :: "byte \<Rightarrow> nat option" where
  "hex_value b =
     (if 48 \<le> unat b \<and> unat b \<le> 57 then Some (unat b - 48)
      else if 97 \<le> unat b \<and> unat b \<le> 102 then Some (unat b - 87)
      else if 65 \<le> unat b \<and> unat b \<le> 70 then Some (unat b - 55)
      else None)"

definition sscanf_2hhx :: "byte \<Rightarrow> byte \<Rightarrow> byte \<Rightarrow> byte" where
  "sscanf_2hhx other c0 c1 =
     (case hex_value c0 of
        Some h \<Rightarrow>
          (case hex_value c1 of
             Some l \<Rightarrow> of_nat (16 * h + l)
           | None \<Rightarrow>
               if c0 = of_char CHR ''0'' \<and> (c1 = of_char CHR ''x'' \<or> c1 = of_char CHR ''X'')
               then other else of_nat h)
      | None \<Rightarrow>
          if c0 = of_char CHR ''+'' then
            (case hex_value c1 of Some l \<Rightarrow> of_nat l | None \<Rightarrow> other)
          else if c0 = of_char CHR ''-'' then
            (case hex_value c1 of Some l \<Rightarrow> - of_nat l | None \<Rightarrow> other)
          else other)"

text \<open>The loop over \<open>i\<close>, on the characters from \<open>ivAscii[2 * i]\<close> on.\<close>

fun read_hex :: "(nat \<Rightarrow> byte) \<Rightarrow> nat \<Rightarrow> byte list \<Rightarrow> byte list" where
  "read_hex other i (c0 # c1 # bs) = sscanf_2hhx (other i) c0 c1 # read_hex other (i + 1) bs"
| "read_hex other i bs = []"

definition ConvertAsciiIvToHexArray ::
    "environment \<Rightarrow> byte list \<Rightarrow> nat \<Rightarrow> (byte list \<times> int) option" where
  "ConvertAsciiIvToHexArray env mem ivAscii =
     do {
       ascii \<leftarrow> read_bytes mem ivAscii (2 * AES_BLOCK_SIZE);
       Some (read_hex (unconverted env) 0 ascii, 0)
     }"

section \<open>Creating and decrypting a factory image\<close>

definition fresh_buffer :: "environment \<Rightarrow> nat \<Rightarrow> byte list" where
  "fresh_buffer env n = map (heap env) [0..<n]"

text \<open>\<open>WriteDebugBufferToFile\<close>: 0 when no debug files are written.\<close>

definition WriteDebugBufferToFile :: "environment \<Rightarrow> string \<Rightarrow> int" where
  "WriteDebugBufferToFile env outputFile =
     (if WriteDebugFiles env then (if fwrite_ok env outputFile then 0 else 1) else 0)"

definition IV :: "byte list" where
  "IV = [0x99, 0x38, 0x0c, 0x25, 0xae, 0xcc, 0x79, 0xd3,
         0x9b, 0x14, 0x5a, 0xc0, 0x43, 0x53, 0xbb, 0xe9]"

text \<open>
  \<open>encryptedDataLength + 16\<close> and its like add an \<open>int\<close> to \<open>unsigned\<close> constants: the
  sum is taken modulo \<open>2 ^ 32\<close>.
\<close>

definition unsigned_add :: "int \<Rightarrow> nat \<Rightarrow> nat" where
  "unsigned_add i n = nat ((i + int n) mod 2 ^ 32)"

text \<open>
  \<open>CreateFactoryImageFromRecoveryImage\<close>.  The pointers into \<open>factoryImage\<close> are
  offsets; \<open>file\<close> is the content of the input file.
\<close>

definition CreateFactoryImageFromRecoveryImage ::
    "('priv, 'pub) openssl \<Rightarrow> environment \<Rightarrow> string \<Rightarrow> M32FirmwareUtilDeviceInfoType
      \<Rightarrow> byte list \<Rightarrow> result option" where
  "CreateFactoryImageFromRecoveryImage c env outputFile device file =
     (let recoveryImageSize = length file;
          factoryImageSize = recoveryImageSize + 3 * M32_FIRMWARE_HEADER_LENGTH
            + 2 * M32_FIRMWARE_SIGNATURE_LENGTH + M32_FIRMWARE_DECRYPTION_INFO_LENGTH;
          encryptedImageWithoutHeaderSize =
            recoveryImageSize + M32_FIRMWARE_HEADER_LENGTH + M32_FIRMWARE_SIGNATURE_LENGTH
      in
      if \<not> malloc_ok env (factoryImageSize + AES_BLOCK_SIZE) then Some (failed UnableToAllocate)
      else
        let factoryImage = fresh_buffer env (factoryImageSize + AES_BLOCK_SIZE);
            factoryImageHeader = 0;
            encryptionHeader = factoryImageHeader + M32_FIRMWARE_HEADER_LENGTH;
            ecnryptionInfo = encryptionHeader + M32_FIRMWARE_HEADER_LENGTH;
            saltHeader = ecnryptionInfo + M32_FIRMWARE_INITIALIZATION_VECTOR_LENGTH;
            recoveryImageWithHeader = ecnryptionInfo + M32_FIRMWARE_DECRYPTION_INFO_LENGTH;
            recoveryImage = recoveryImageWithHeader + M32_FIRMWARE_HEADER_LENGTH
        in
        if \<not> fread_ok env then Some (failed UnableToRead)
        else
          do {
            m1 \<leftarrow> store_bytes factoryImage recoveryImage file;
            (m2, s2) \<leftarrow> CreateSha512VerificatioinHeader m1 recoveryImageWithHeader recoveryImageSize;
            if s2 \<noteq> 0 then Some (failed UnableToCreateHeader)
            else
              do {
                (m3, status3, r3) \<leftarrow>
                  CreateSha512VerificatioinSignature c (no_return_value env 0) m2
                    recoveryImage recoveryImageSize device;
                if r3 \<noteq> 0 then Some (failed UnableToCreateSignature)
                else if WriteDebugBufferToFile env ''Sig1.bin'' \<noteq> 0
                  then Some (failed ErrorDuringWritingDebug)
                else if WriteDebugBufferToFile env ''FW_and_Sig1.bin'' \<noteq> 0
                  then Some (failed ErrorDuringWritingDebug)
                else
                  do {
                    (m4, s4, encryptedDataLength) \<leftarrow>
                      EncryptAes128Cbc c m3 recoveryImageWithHeader encryptedImageWithoutHeaderSize
                        recoveryImageWithHeader saltHeader (FirmwareKey device) IV;
                    if s4 \<noteq> 0 then Some (failed UnableToEncrypt)
                    else if WriteDebugBufferToFile env ''FWenc.bin'' \<noteq> 0
                      then Some (failed ErrorDuringWritingDebug)
                    else
                      do {
                        (m5, s5) \<leftarrow>
                          CreateAes128CbcEncryptionHeader m4 encryptionHeader
                            (unsigned_add encryptedDataLength M32_FIRMWARE_SALT_INFO_LENGTH);
                        if s5 \<noteq> 0 then Some (failed UnableToCreateHeader)
                        else
                          do {
                            (m6, s6) \<leftarrow> WriteAes128CbcIvToBuffer m5 ecnryptionInfo IV;
                            if s6 \<noteq> 0 then Some (failed UnableToConvertIv)
                            else if WriteDebugBufferToFile env ''IV.bin'' \<noteq> 0
                              then Some (failed ErrorDuringWritingDebug)
                            else
                              do {
                                (m7, s7) \<leftarrow>
                                  CreateSha512VerificatioinHeader m6 factoryImageHeader
                                    (unsigned_add encryptedDataLength
                                       (M32_FIRMWARE_DECRYPTION_INFO_LENGTH
                                        + M32_FIRMWARE_HEADER_LENGTH));
                                if s7 \<noteq> 0 then Some (failed UnableToCreateHeader)
                                else
                                  do {
                                    (m8, status8, r8) \<leftarrow>
                                      CreateSha512VerificatioinSignature c (no_return_value env 1)
                                        m7 encryptionHeader
                                        (unsigned_add encryptedDataLength
                                           (M32_FIRMWARE_DECRYPTION_INFO_LENGTH
                                            + M32_FIRMWARE_HEADER_LENGTH))
                                        device;
                                    if r8 \<noteq> 0 then Some (failed UnableToCreateSignature)
                                    else
                                      do {
                                        out \<leftarrow>
                                          read_bytes m8 factoryImageHeader
                                            (unsigned_add encryptedDataLength
                                               (M32_FIRMWARE_DECRYPTION_INFO_LENGTH
                                                + 2 * M32_FIRMWARE_HEADER_LENGTH
                                                + M32_FIRMWARE_SIGNATURE_LENGTH));
                                        if \<not> fwrite_ok env outputFile
                                          then Some (failed ErrorDuringWriting)
                                        else Some (succeeded out)
                                      }
                                  }
                              }
                          }
                      }
                  }
              }
          })"

text \<open>
  \<open>DecryptFactoryImage\<close>.  \<open>file\<close> is the content of the input file, \<open>st_size\<close> its
  length.
\<close>

definition DecryptFactoryImage ::
    "('priv, 'pub) openssl \<Rightarrow> environment \<Rightarrow> string \<Rightarrow> M32FirmwareUtilDeviceInfoType
      \<Rightarrow> byte list \<Rightarrow> result option" where
  "DecryptFactoryImage c env outputFile device file =
     (let st_size = length file in
      if \<not> malloc_ok env st_size then Some (failed UnableToAllocate)
      else if \<not> fread_ok env then Some (failed UnableToRead)
      else
        do {
          (s1, currentBlockLength1) \<leftarrow> GetDataLengthFromVerificationHeader file 0 0;
          if s1 \<noteq> 0 then Some (failed UnableToGetBlockLength)
          else if st_size < M32_FIRMWARE_HEADER_LENGTH then Some (failed BlockOffsetOutOfRange)
          else
            do {
              s2 \<leftarrow> VerifySha512Signture c file M32_FIRMWARE_HEADER_LENGTH currentBlockLength1 device;
              if s2 \<noteq> 0 then Some (failed VerificationFailed)
              else
                do {
                  (s3, currentBlockLength2) \<leftarrow>
                    GetDataLengthFromEncryptionHeader file M32_FIRMWARE_HEADER_LENGTH
                      currentBlockLength1;
                  if s3 \<noteq> 0 then Some (failed UnableToGetBlockLength)
                  else if st_size < 2 * M32_FIRMWARE_HEADER_LENGTH
                    then Some (failed BlockOffsetOutOfRange)
                  else
                    do {
                      (ivHex, s4) \<leftarrow>
                        ConvertAsciiIvToHexArray env file (2 * M32_FIRMWARE_HEADER_LENGTH);
                      if s4 \<noteq> 0 then Some (failed UnableToConvertIv)
                      else if st_size < 2 * M32_FIRMWARE_HEADER_LENGTH
                                         + M32_FIRMWARE_INITIALIZATION_VECTOR_LENGTH
                        then Some (failed BlockOffsetOutOfRange)
                      else if \<not> malloc_ok env currentBlockLength2
                        then Some (failed UnableToAllocate)
                      else
                        do {
                          (decrpytedData, s5) \<leftarrow>
                            DecryptAes128Cbc c file
                              (2 * M32_FIRMWARE_HEADER_LENGTH
                               + M32_FIRMWARE_INITIALIZATION_VECTOR_LENGTH)
                              currentBlockLength2 (fresh_buffer env currentBlockLength2)
                              (FirmwareKey device) ivHex;
                          if s5 \<noteq> 0 then Some (failed DecryptionFailed)
                          else
                            do {
                              (s6, currentBlockLength3) \<leftarrow>
                                GetDataLengthFromVerificationHeader decrpytedData 0
                                  currentBlockLength2;
                              if s6 \<noteq> 0 then Some (failed UnableToGetBlockLength)
                              else if st_size < 3 * M32_FIRMWARE_HEADER_LENGTH
                                                 + M32_FIRMWARE_INITIALIZATION_VECTOR_LENGTH
                                then Some (failed BlockOffsetOutOfRange)
                              else
                                do {
                                  s7 \<leftarrow>
                                    VerifySha512Signture c decrpytedData M32_FIRMWARE_HEADER_LENGTH
                                      currentBlockLength3 device;
                                  if s7 \<noteq> 0 then Some (failed VerificationFailed)
                                  else
                                    do {
                                      out \<leftarrow>
                                        read_bytes decrpytedData M32_FIRMWARE_HEADER_LENGTH
                                          currentBlockLength3;
                                      if \<not> fwrite_ok env outputFile
                                        then Some (failed ErrorDuringWriting)
                                      else Some (succeeded out)
                                    }
                                }
                            }
                        }
                    }
                }
            }
        })"

text \<open>The round trip: a factory image is created and, when that has written one, decrypted.\<close>

definition round_trip ::
    "('priv, 'pub) openssl \<Rightarrow> environment \<Rightarrow> M32FirmwareUtilDeviceInfoType \<Rightarrow> byte list
      \<Rightarrow> result option" where
  "round_trip c env device file =
     (case CreateFactoryImageFromRecoveryImage c env ''factory.bin'' device file of
        None \<Rightarrow> None
      | Some r \<Rightarrow>
          (case outfile r of
             None \<Rightarrow> Some r
           | Some factory \<Rightarrow> DecryptFactoryImage c env ''recovery.bin'' device factory))"


section \<open>Auxiliary notions\<close>

text \<open>The even number of bytes the checksum loop reads for a length \<open>n\<close>, and the condition
  under which the loop stays inside the buffer and inside \<open>int\<close>.\<close>

definition round_up2 :: "nat \<Rightarrow> nat" where
  "round_up2 n = n + n mod 2"

definition sum16_ok :: "nat \<Rightarrow> nat \<Rightarrow> nat \<Rightarrow> bool" where
  "sum16_ok len buffer n \<longleftrightarrow> n = 0 \<or> (buffer + round_up2 n \<le> len \<and> n < INT_MAX)"

text \<open>Storing a 16-bit value, low byte first.\<close>

definition store16 :: "byte list \<Rightarrow> nat \<Rightarrow> 16 word \<Rightarrow> byte list" where
  "store16 mem a c = mem[a := ucast (c AND 0xFF), a + 1 := ucast (drop_bit 8 c AND 0xFF)]"

text \<open>
  What the second loop does to the header at offset \<open>a\<close> of a partition with \<open>plen\<close>
  bytes of data, as one expression, and the condition under which it stays inside the
  buffer.
\<close>

definition partition_ok :: "nat \<Rightarrow> nat \<Rightarrow> nat \<Rightarrow> bool" where
  "partition_ok len a plen \<longleftrightarrow> a + 80 \<le> len \<and> sum16_ok len (a + 80) plen"

definition fix_header :: "byte list \<Rightarrow> nat \<Rightarrow> nat \<Rightarrow> byte list" where
  "fix_header buf a plen =
     (let b1 = buf[a + 44 := byte_of_size plen 0, a + 45 := byte_of_size plen 8,
                   a + 46 := byte_of_size plen 16, a + 47 := byte_of_size plen 24];
          b2 = store16 b1 (a + 14)
                 (spec_Sum16Carry (take (round_up2 plen) (drop (a + 80) b1)) False)
      in store16 b2 (a + 78) (spec_Sum16Carry (take 78 (drop a b2)) True))"

text \<open>The second loop as a fold over the partition indices.\<close>

definition fix_all :: "byte list \<Rightarrow> nat list \<Rightarrow> nat \<Rightarrow> nat \<Rightarrow> nat \<Rightarrow> byte list" where
  "fix_all buf hs st cnt p =
     foldl (\<lambda>b q. fix_header b (hs ! q) (partition_length hs st q)) buf [p..<cnt]"

text \<open>
  The magic string occurs at offset \<open>i\<close>; the offsets the search loop records: the first
  16 occurrences below \<open>st_size - 80\<close>.
\<close>

definition match_at :: "byte list \<Rightarrow> byte list \<Rightarrow> nat \<Rightarrow> bool" where
  "match_at buf magic i \<longleftrightarrow> take (length magic) (drop i buf) = magic"

definition recorded :: "M32FirmwareUtilDeviceInfoType \<Rightarrow> byte list \<Rightarrow> nat list" where
  "recorded device file =
     take 16 (filter (match_at file (bytes_of (RecoveryHeaderStart device)))
                [0..<size_sub (length file) M32_FIRMWARE_UTIL_FW_HEADER_LENGTH])"

text \<open>
  The array \<open>headerAddresses\<close> after the search, the buffer after the second loop and
  the condition under which the second loop stays inside the buffer.
\<close>

definition header_array :: "nat list \<Rightarrow> nat list" where
  "header_array A = A @ replicate (16 - length A) SIZE_MAX"

definition repaired :: "M32FirmwareUtilDeviceInfoType \<Rightarrow> byte list \<Rightarrow> byte list" where
  "repaired device file =
     fix_all file (header_array (recorded device file)) (length file)
       (length (recorded device file)) 0"

definition repair_ok :: "M32FirmwareUtilDeviceInfoType \<Rightarrow> byte list \<Rightarrow> bool" where
  "repair_ok device file \<longleftrightarrow>
     (\<forall>q. q < length (recorded device file) \<longrightarrow>
        partition_ok (length file) (recorded device file ! q)
          (partition_length (header_array (recorded device file)) (length file) q))"


section \<open>Auxiliary notions for the factory image\<close>

text \<open>A span of a buffer, and a buffer with a span overwritten.\<close>

definition win :: "byte list \<Rightarrow> nat \<Rightarrow> nat \<Rightarrow> byte list" where
  "win mem a n = take n (drop a mem)"

definition overwrite :: "byte list \<Rightarrow> nat \<Rightarrow> byte list \<Rightarrow> byte list" where
  "overwrite mem a bs = take a mem @ bs @ drop (a + length bs) mem"

text \<open>The two headers as byte strings.\<close>

definition length_bytes_le :: "nat \<Rightarrow> byte list" where
  "length_bytes_le n = [byte_of_size n 0, byte_of_size n 8, byte_of_size n 16, byte_of_size n 24]"

definition with_sums :: "byte list \<Rightarrow> byte list" where
  "with_sums h = h @ [fst (spec_ByteSumXor h), snd (spec_ByteSumXor h)]"

definition verification_header :: "nat \<Rightarrow> byte list" where
  "verification_header n =
     with_sums (bytes_of ''MH01'' @ length_bytes_le n @ [0x00, 0x01, 0x00, 0x00] @ [0x2B, 0x1A])"

definition encryption_header :: "nat \<Rightarrow> byte list" where
  "encryption_header n =
     with_sums (bytes_of ''MH01'' @ [0x21, 0x00, 0x00, 0x00] @ length_bytes_le n @ [0x2B, 0x1A])"

text \<open>
  The library signs for a device: the digest is computed, the key material of the device
  parses with its passphrase, and the signature has 256 bytes.
\<close>

definition signing_works :: "('priv, 'pub) openssl \<Rightarrow> M32FirmwareUtilDeviceInfoType \<Rightarrow> bool" where
  "signing_works c device \<longleftrightarrow>
     (\<forall>data. sha512 c data \<noteq> None)
     \<and> (\<exists>priv. pem_read_private_key c (PrivateKey device) (Passphrase device) = Some priv
          \<and> (\<forall>digest. \<exists>sig. evp_sign c priv digest = Some sig
                \<and> length sig = M32_FIRMWARE_SIGNATURE_LENGTH))"

definition signature_of ::
    "('priv, 'pub) openssl \<Rightarrow> M32FirmwareUtilDeviceInfoType \<Rightarrow> byte list \<Rightarrow> byte list" where
  "signature_of c device data =
     the (evp_sign c (the (pem_read_private_key c (PrivateKey device) (Passphrase device)))
            (the (sha512 c data)))"

definition device_key :: "('priv, 'pub) openssl \<Rightarrow> M32FirmwareUtilDeviceInfoType \<Rightarrow> byte list" where
  "device_key c device = fst (evp_bytes_to_key c salt (FirmwareKey device))"

text \<open>The two hexadecimal digits of every byte.\<close>

definition hexes :: "byte list \<Rightarrow> byte list" where
  "hexes bs = concat (map (\<lambda>b. [hex_digit (unat b div 16), hex_digit (unat b mod 16)]) bs)"

definition iv_text :: "byte list" where
  "iv_text = concat (map (\<lambda>b. [hex_digit (unat b div 16), hex_digit (unat b mod 16)]) IV) @ [0x0A]"

text \<open>
  The parts of the factory image: what is encrypted, the ciphertext, the block that the
  outer signature covers, and the whole image.
\<close>

definition inner_plain ::
    "('priv, 'pub) openssl \<Rightarrow> M32FirmwareUtilDeviceInfoType \<Rightarrow> byte list \<Rightarrow> byte list" where
  "inner_plain c device file =
     take (nat (size_t_to_int (length file + 272)))
       (verification_header (length file) @ file @ signature_of c device file)"

definition inner_cipher ::
    "('priv, 'pub) openssl \<Rightarrow> M32FirmwareUtilDeviceInfoType \<Rightarrow> byte list \<Rightarrow> byte list" where
  "inner_cipher c device file =
     the (aes_128_cbc_encrypt c (device_key c device) IV (inner_plain c device file))"

definition outer_block ::
    "('priv, 'pub) openssl \<Rightarrow> M32FirmwareUtilDeviceInfoType \<Rightarrow> byte list \<Rightarrow> byte list" where
  "outer_block c device file =
     encryption_header (length (inner_cipher c device file) + 16) @ iv_text
       @ bytes_of ''Salted__'' @ salt @ inner_cipher c device file"

definition factory_image ::
    "('priv, 'pub) openssl \<Rightarrow> M32FirmwareUtilDeviceInfoType \<Rightarrow> byte list \<Rightarrow> byte list" where
  "factory_image c device file =
     verification_header (length (inner_cipher c device file) + 65) @ outer_block c device file
       @ signature_of c device (outer_block c device file)"

section \<open>A toy library\<close>

text \<open>
  A small stand-in for the library, for evaluating the model on concrete inputs: the
  digest is the first 64 bytes of the data, a signature is the digest filled up to 256
  bytes with a byte that names the key, the cipher adds PKCS#7 padding and flips the
  bits of every byte with one mask byte made from key and initialization vector.
\<close>

definition toy_sha512 :: "byte list \<Rightarrow> byte list" where
  "toy_sha512 data = take 64 (data @ replicate 64 0)"

fun key_tag :: "pem \<Rightarrow> byte" where
  "key_tag M30PrivateKey = 0x30"
| "key_tag M30PublicKey = 0x30"
| "key_tag M32PrivateKey = 0x32"
| "key_tag M32PublicKey = 0x32"
| "key_tag M60PrivateKey = 0x60"
| "key_tag M60PublicKey = 0x60"

fun is_private :: "pem \<Rightarrow> bool" where
  "is_private M30PrivateKey = True"
| "is_private M32PrivateKey = True"
| "is_private M60PrivateKey = True"
| "is_private k = False"

definition toy_sign :: "pem \<Rightarrow> byte list \<Rightarrow> byte list" where
  "toy_sign k digest = take 256 (digest @ replicate 256 (key_tag k))"

definition toy_mask :: "byte list \<Rightarrow> byte list \<Rightarrow> byte" where
  "toy_mask k iv = foldr (XOR) (k @ iv) 0x5A"

definition pkcs7_pad :: "byte list \<Rightarrow> byte list" where
  "pkcs7_pad plain =
     plain @ replicate (16 - length plain mod 16) (of_nat (16 - length plain mod 16))"

definition pkcs7_unpad :: "byte list \<Rightarrow> byte list option" where
  "pkcs7_unpad padded =
     (if padded = [] \<or> length padded mod 16 \<noteq> 0 then None
      else
        let k = unat (last padded) in
        if 1 \<le> k \<and> k \<le> 16
           \<and> drop (length padded - k) padded = replicate k (last padded)
        then Some (take (length padded - k) padded) else None)"

definition toy :: "(pem, pem) openssl" where
  "toy = \<lparr>sha512 = (\<lambda>data. Some (toy_sha512 data)),
          pem_read_private_key =
            (\<lambda>k passphrase. if is_private k \<and> passphrase = ''wrpd'' then Some k else None),
          pem_read_public_key = (\<lambda>k. if is_private k then None else Some k),
          evp_sign = (\<lambda>k digest. Some (toy_sign k digest)),
          evp_digest_verify = (\<lambda>k digest sig. if sig = toy_sign k digest then 1 else 0),
          evp_bytes_to_key =
            (\<lambda>s password. (take 16 (bytes_of password @ replicate 16 0),
                            take 16 (s @ replicate 16 0))),
          aes_128_cbc_encrypt =
            (\<lambda>k iv plain. Some (map (\<lambda>b. b XOR toy_mask k iv) (pkcs7_pad plain))),
          aes_128_cbc_decrypt =
            (\<lambda>k iv encrypted. pkcs7_unpad (map (\<lambda>b. b XOR toy_mask k iv) encrypted))\<rparr>"


section \<open>More concrete inputs\<close>

text \<open>
  An environment in which debug files are written and fresh memory is not zero, and one
  in which a call of a function without \<open>return\<close> statement is read as 1.
\<close>

definition env_debug :: environment where
  "env_debug = \<lparr>malloc_ok = (\<lambda>size. True), fread_ok = True, fwrite_ok = (\<lambda>name. True),
                WriteDebugFiles = True, heap = (\<lambda>address. 0xA5), no_return_value = (\<lambda>k. 0),
                unconverted = (\<lambda>i. 0xC3)\<rparr>"

definition env_returns_one :: environment where
  "env_returns_one = \<lparr>malloc_ok = (\<lambda>size. True), fread_ok = True, fwrite_ok = (\<lambda>name. True),
                      WriteDebugFiles = False, heap = (\<lambda>address. 0),
                      no_return_value = (\<lambda>k. 1), unconverted = (\<lambda>i. 0)\<rparr>"

text \<open>A recovery image of 1025 bytes, and one of \<open>2 ^ 31 - 352\<close> bytes.\<close>

definition recovery_1025 :: "byte list" where
  "recovery_1025 = 0x27 # replicate 1024 0x05"

definition large_image :: "byte list" where
  "large_image = replicate 2147483296 0"

text \<open>
  A recovery image for the M32 of 94 bytes with one partition of 14 bytes, whose header
  holds \<open>DL\<close> at offset 12 and \<open>E6010001\<close> at offset 16, and the buffer after the second
  loop: the checksum of the data is \<open>K6\<close>.
\<close>

definition image_k6 :: "byte list" where
  "image_k6 = bytes_of ''DLK6E6010001DL'' @ [0, 0] @ bytes_of ''E6010001'' @ replicate 56 0
                @ [0x4B, 0x36] @ replicate 12 0"

definition image_k6_repaired :: "byte list" where
  "image_k6_repaired =
     bytes_of ''DLK6E6010001DLK6E6010001'' @ replicate 20 0 @ [14, 0, 0, 0] @ replicate 30 0
       @ [39, 105, 0x4B, 0x36] @ replicate 12 0"


section \<open>The checksum loop\<close>

declare sum16_loop.simps [simp del]

lemma take_drop_two:
  "a + 2 \<le> length mem \<Longrightarrow> 2 \<le> k \<Longrightarrow>
   take k (drop a mem) = mem ! a # mem ! (a + 1) # take (k - 2) (drop (a + 2) mem)"
proof -
  assume a: "a + 2 \<le> length mem" and k: "2 \<le> k"
  have d1: "drop a mem = mem ! a # drop (Suc a) mem"
    using a by (simp add: Cons_nth_drop_Suc)
  have d2: "drop (Suc a) mem = mem ! (Suc a) # drop (Suc (Suc a)) mem"
    using a by (simp add: Cons_nth_drop_Suc)
  obtain k' where k': "k = Suc (Suc k')"
    using k by (metis Suc_le_D numeral_2_eq_2 Suc_le_mono)
  show ?thesis
    by (simp add: d1 d2 k')
qed

lemma foldl_add_carry:
  "foldl (\<lambda>s w. if s + w < w then s + w + 1 else s + w) acc ws = foldl add_carry acc ws"
  by (induction ws arbitrary: acc) (simp_all add: add_carry_def Let_def)

lemma sum16_loop_step:
  "i < bufferLength \<Longrightarrow> load8 mem (buffer + i) = Some b0 \<Longrightarrow>
   load8 mem (buffer + i + 1) = Some b1 \<Longrightarrow> \<not> INT_MAX < i + 2 \<Longrightarrow>
   sum16_loop mem buffer bufferLength i acc =
     sum16_loop mem buffer bufferLength (i + 2) (add_carry acc (le16 b0 b1))"
  by (subst sum16_loop.simps) simp

lemma sum16_loop_done:
  "\<not> i < bufferLength \<Longrightarrow> sum16_loop mem buffer bufferLength i acc = Some acc"
  by (subst sum16_loop.simps) simp

lemma even_less_add2: "even (i::nat) \<Longrightarrow> even n \<Longrightarrow> i < n \<Longrightarrow> i + 2 \<le> n"
  by presburger

lemma sum16_loop_even:
  "even i \<Longrightarrow> even bufferLength \<Longrightarrow> i \<le> bufferLength \<Longrightarrow>
   buffer + bufferLength \<le> length mem \<Longrightarrow> bufferLength \<le> INT_MAX \<Longrightarrow>
   sum16_loop mem buffer bufferLength i acc =
     Some (foldl add_carry acc (le_words (take (bufferLength - i) (drop (buffer + i) mem))))"
proof (induction mem buffer bufferLength i acc rule: sum16_loop.induct)
  case (1 mem buffer bufferLength i acc)
  show ?case
  proof (cases "i < bufferLength")
    case False
    with "1.prems" show ?thesis by (simp add: sum16_loop_done)
  next
    case True
    have i2: "i + 2 \<le> bufferLength"
      using "1.prems" True by (intro even_less_add2)
    have l0: "load8 mem (buffer + i) = Some (mem ! (buffer + i))"
      using i2 "1.prems" by (simp add: load8_def)
    have l1: "load8 mem (buffer + i + 1) = Some (mem ! (buffer + i + 1))"
      using i2 "1.prems" by (simp add: load8_def)
    have nov: "\<not> INT_MAX < i + 2"
      using i2 "1.prems" by simp
    have td: "take (bufferLength - i) (drop (buffer + i) mem) =
        mem ! (buffer + i) # mem ! (buffer + i + 1)
          # take (bufferLength - (i + 2)) (drop (buffer + (i + 2)) mem)"
      using take_drop_two [of "buffer + i" mem "bufferLength - i"] i2 "1.prems"
      by (simp add: add.assoc)
    have ih: "sum16_loop mem buffer bufferLength (i + 2)
                (add_carry acc (le16 (mem ! (buffer + i)) (mem ! (buffer + i + 1)))) =
              Some (foldl add_carry (add_carry acc (le16 (mem ! (buffer + i)) (mem ! (buffer + i + 1))))
                (le_words (take (bufferLength - (i + 2)) (drop (buffer + (i + 2)) mem))))"
      using "1.IH" [OF True l0 l1 nov] "1.prems" i2 by simp
    have "sum16_loop mem buffer bufferLength i acc =
            sum16_loop mem buffer bufferLength (i + 2)
              (add_carry acc (le16 (mem ! (buffer + i)) (mem ! (buffer + i + 1))))"
      by (rule sum16_loop_step [OF True l0 l1 nov])
    also note ih
    finally show ?thesis
      by (simp only: td le_words.simps foldl_Cons)
  qed
qed

text \<open>A run of the loop that returns has stayed inside the buffer and inside \<open>int\<close>.\<close>

lemma sum16_loop_Some_bounds:
  "sum16_loop mem buffer bufferLength i acc = Some r \<Longrightarrow> even i \<Longrightarrow> even bufferLength \<Longrightarrow>
   i < bufferLength \<Longrightarrow> buffer + bufferLength \<le> length mem \<and> bufferLength \<le> INT_MAX"
proof (induction mem buffer bufferLength i acc rule: sum16_loop.induct)
  case (1 mem buffer bufferLength i acc)
  from "1.prems" have lt: "i < bufferLength" by simp
  have i2: "i + 2 \<le> bufferLength"
    using "1.prems" by (intro even_less_add2)
  from "1.prems"(1) lt obtain b0 b1 where
    l0: "load8 mem (buffer + i) = Some b0" and l1: "load8 mem (buffer + i + 1) = Some b1"
    and nov: "\<not> INT_MAX < i + 2"
    and rec: "sum16_loop mem buffer bufferLength (i + 2) (add_carry acc (le16 b0 b1)) = Some r"
    by (subst (asm) sum16_loop.simps) (auto split: option.splits if_splits)
  show ?case
  proof (cases "i + 2 < bufferLength")
    case True
    show ?thesis
      using "1.IH" [OF lt l0 l1 nov rec] "1.prems" True by simp
  next
    case False
    with i2 have e: "bufferLength = i + 2" by simp
    from l1 have "buffer + i + 1 < length mem"
      by (simp add: load8_def split: if_splits)
    with e nov show ?thesis by simp
  qed
qed

lemma sum16_loop_odd:
  "even i \<Longrightarrow> odd bufferLength \<Longrightarrow>
   sum16_loop mem buffer bufferLength i acc = sum16_loop mem buffer (Suc bufferLength) i acc"
proof (induction mem buffer bufferLength i acc rule: sum16_loop.induct)
  case (1 mem buffer bufferLength i acc)
  have c: "i < Suc bufferLength \<longleftrightarrow> i < bufferLength"
    using "1.prems" by (metis less_Suc_eq)
  show ?case
  proof (cases "i < bufferLength")
    case False
    then show ?thesis using c by (simp add: sum16_loop_done)
  next
    case True
    show ?thesis
      apply (subst sum16_loop.simps)
      apply (subst (2) sum16_loop.simps)
      using "1.IH" "1.prems" True c
      by (auto split: option.splits)
  qed
qed

lemma even_round_up2: "even (round_up2 n)"
  unfolding round_up2_def by presburger

lemma sum16_loop_round: "sum16_loop mem buffer n 0 acc = sum16_loop mem buffer (round_up2 n) 0 acc"
proof (cases "even n")
  case True
  then show ?thesis by (simp add: round_up2_def)
next
  case False
  then have "round_up2 n = Suc n" unfolding round_up2_def by presburger
  with False show ?thesis by (simp add: sum16_loop_odd)
qed

lemma INT_MAX_eq: "INT_MAX = 2147483647"
  by (simp add: INT_MAX_def)

lemma round_up2_le_INT_MAX: "round_up2 n \<le> INT_MAX \<longleftrightarrow> n < INT_MAX"
  unfolding round_up2_def INT_MAX_eq by presburger

lemma checksum16_eq:
  "checksum16 mem buffer n inverted =
     (if sum16_ok (length mem) buffer n
      then Some (spec_Sum16Carry (take (round_up2 n) (drop buffer mem)) inverted)
      else None)"
proof (cases "n = 0")
  case True
  then show ?thesis
    by (simp add: checksum16_def sum16_ok_def sum16_loop_done spec_Sum16Carry_def round_up2_def)
next
  case False
  then have pos: "0 < round_up2 n" by (simp add: round_up2_def)
  show ?thesis
  proof (cases "buffer + round_up2 n \<le> length mem \<and> n < INT_MAX")
    case True
    then have "sum16_loop mem buffer (round_up2 n) 0 0 =
        Some (foldl add_carry 0 (le_words (take (round_up2 n) (drop buffer mem))))"
      using sum16_loop_even [of 0 "round_up2 n" buffer mem 0]
      by (simp add: even_round_up2 round_up2_le_INT_MAX)
    then show ?thesis using True
      by (simp add: checksum16_def sum16_ok_def sum16_loop_round [of mem buffer n]
            spec_Sum16Carry_def foldl_add_carry Let_def)
  next
    case nb: False
    have "sum16_loop mem buffer (round_up2 n) 0 0 = None"
    proof (cases "sum16_loop mem buffer (round_up2 n) 0 0")
      case None then show ?thesis .
    next
      case (Some r)
      from sum16_loop_Some_bounds [OF Some _ even_round_up2 pos] nb
      show ?thesis by (simp add: round_up2_le_INT_MAX)
    qed
    then show ?thesis using nb False
      by (simp add: checksum16_def sum16_ok_def sum16_loop_round [of mem buffer n])
  qed
qed

section \<open>Bytes of words\<close>

lemma mask8: "(0xFF :: 16 word) = mask 8" by (simp add: mask_eq_exp_minus_1)

lemma le16_lo: "ucast (le16 b0 b1 AND 0xFF) = b0"
  unfolding le16_def mask8
  by (rule bit_word_eqI) (auto simp add: bit_simps)

lemma le16_hi: "ucast (drop_bit 8 (le16 b0 b1) AND 0xFF) = b1"
  unfolding le16_def mask8
  by (rule bit_word_eqI) (auto simp add: bit_simps dest: bit_imp_le_length)

lemma le16_split: "le16 (ucast (c AND 0xFF)) (ucast (drop_bit 8 c AND 0xFF)) = c"
  unfolding le16_def mask8
  by (rule bit_word_eqI) (auto simp add: bit_simps)

lemma byte_of_size_unat: "byte_of_size (unat (x :: 64 word)) k = ucast (drop_bit k x)"
proof -
  have "(of_nat ((unat x div 2 ^ k) mod 256) :: byte) = of_nat (unat x div 2 ^ k)"
    using word_of_nat_eq_iff [where 'a = 8, of "(unat x div 2 ^ k) mod 256" "unat x div 2 ^ k"]
    by (simp add: take_bit_eq_mod)
  also have "\<dots> = of_nat (unat (drop_bit k x))"
    by (simp only: unat_drop_bit_eq) (simp add: drop_bit_eq_div)
  also have "\<dots> = ucast (drop_bit k x)"
    by simp
  finally show ?thesis by (simp add: byte_of_size_def)
qed

lemma length_bytes:
  "byte_of_size (int_to_size_t (le32_int b0 b1 b2 b3)) 0 = b0"
  "byte_of_size (int_to_size_t (le32_int b0 b1 b2 b3)) 8 = b1"
  "byte_of_size (int_to_size_t (le32_int b0 b1 b2 b3)) 16 = b2"
  "byte_of_size (int_to_size_t (le32_int b0 b1 b2 b3)) 24 = b3"
  unfolding int_to_size_t_def byte_of_size_unat le32_int_def
  by (rule bit_word_eqI; auto simp add: bit_simps dest: bit_imp_le_length)+

section \<open>One partition\<close>

lemma length_store16 [simp]: "length (store16 mem a c) = length mem"
  by (simp add: store16_def)

lemma Caclulate16BitSum_eq:
  "Caclulate16BitSum mem buffer n cb inverted =
     (if cb + 1 < length mem \<and> sum16_ok (length mem) buffer n
      then Some (store16 mem cb (spec_Sum16Carry (take (round_up2 n) (drop buffer mem)) inverted))
      else None)"
proof (cases "cb + 1 < length mem \<and> sum16_ok (length mem) buffer n")
  case False
  then show ?thesis
    by (auto simp add: Caclulate16BitSum_def checksum16_eq load8_def split: bind_splits)
next
  case True
  define c where "c = spec_Sum16Carry (take (round_up2 n) (drop buffer mem)) inverted"
  have ck: "checksum16 mem buffer n inverted = Some c"
    using True by (simp add: checksum16_eq c_def)
  have l0: "load8 mem cb = Some (mem ! cb)" and l1: "load8 mem (cb + 1) = Some (mem ! (cb + 1))"
    using True by (simp_all add: load8_def)
  show ?thesis
  proof (cases "c = le16 (mem ! cb) (mem ! (cb + 1))")
    case same: True
    have "store16 mem cb c = mem"
      by (simp add: store16_def same le16_lo le16_hi)
    then show ?thesis
      using True same ck l0 l1 by (simp add: Caclulate16BitSum_def c_def [symmetric])
  next
    case diff: False
    show ?thesis
      using True diff ck l0 l1
      by (simp add: Caclulate16BitSum_def c_def [symmetric] store8_def store16_def)
  qed
qed

lemma length_fix_header [simp]: "length (fix_header buf a plen) = length buf"
  by (simp add: fix_header_def Let_def)

lemma store_len_same:
  "int_to_size_t (le32_int (buf ! i0) (buf ! i1) (buf ! i2) (buf ! i3)) = plen \<Longrightarrow>
   buf[i0 := byte_of_size plen 0, i1 := byte_of_size plen 8,
       i2 := byte_of_size plen 16, i3 := byte_of_size plen 24] = buf"
proof -
  assume e: "int_to_size_t (le32_int (buf ! i0) (buf ! i1) (buf ! i2) (buf ! i3)) = plen"
  show ?thesis
    unfolding e [symmetric] length_bytes by simp
qed

lemma update_partition_eq:
  "update_partition buf hs st p =
     (if partition_ok (length buf) (hs ! p) (partition_length hs st p)
      then Some (fix_header buf (hs ! p) (partition_length hs st p))
      else None)"
proof -
  define a where "a = hs ! p"
  define plen where "plen = partition_length hs st p"
  show ?thesis
  proof (cases "a + 80 \<le> length buf")
    case False
    then show ?thesis
      unfolding update_partition_def a_def [symmetric] plen_def [symmetric] Let_def
      by (auto simp add: Caclulate16BitSum_eq partition_ok_def load8_def store8_def
            M32_FIRMWARE_UTIL_FW_DATA_LENGTH_OFFSET_def M32_FIRMWARE_UTIL_FW_HEADER_LENGTH_def
            CHECKUM_PATCHER_DATA_CHECKSUM_OFFSET_def CHECKUM_PATCHER_HEADER_CHECKSUM_OFFSET_def
          split: bind_splits if_splits)
  next
    case True
    define b1 where "b1 = buf[a + 44 := byte_of_size plen 0, a + 45 := byte_of_size plen 8,
                   a + 46 := byte_of_size plen 16, a + 47 := byte_of_size plen 24]"
    define b2 where "b2 = store16 b1 (a + 14)
                 (spec_Sum16Carry (take (round_up2 plen) (drop (a + 80) b1)) False)"
    define b3 where "b3 = store16 b2 (a + 78) (spec_Sum16Carry (take 78 (drop a b2)) True)"
    have n: "a + 44 + 1 = a + 45" "a + 44 + 2 = a + 46" "a + 44 + 3 = a + 47"
      "(80::nat) - 2 = 78"
      by simp_all
    have l: "load8 buf (a + 44) = Some (buf ! (a + 44))" "load8 buf (a + 45) = Some (buf ! (a + 45))"
      "load8 buf (a + 46) = Some (buf ! (a + 46))" "load8 buf (a + 47) = Some (buf ! (a + 47))"
      using True by (simp_all add: load8_def)
    have st: "(if int_to_size_t (le32_int (buf ! (a + 44)) (buf ! (a + 45)) (buf ! (a + 46))
                  (buf ! (a + 47))) \<noteq> plen
          then store8 buf (a + 44) (byte_of_size plen 0) \<bind>
               (\<lambda>m0. store8 m0 (a + 45) (byte_of_size plen 8) \<bind>
               (\<lambda>m1. store8 m1 (a + 46) (byte_of_size plen 16) \<bind>
               (\<lambda>m2. store8 m2 (a + 47) (byte_of_size plen 24))))
          else Some buf) = Some b1"
    proof (cases "int_to_size_t (le32_int (buf ! (a + 44)) (buf ! (a + 45)) (buf ! (a + 46))
                  (buf ! (a + 47))) = plen")
      case same: True
      have "b1 = buf"
        unfolding b1_def by (rule store_len_same [OF same])
      with same show ?thesis by simp
    next
      case False
      with True show ?thesis by (simp add: store8_def b1_def)
    qed
    have c1: "Caclulate16BitSum b1 (a + 80) plen (a + 14) False =
        (if sum16_ok (length buf) (a + 80) plen then Some b2 else None)"
      using True by (simp add: Caclulate16BitSum_eq b2_def b1_def sum16_ok_def)
    have c2: "Caclulate16BitSum b2 a 78 (a + 78) True = Some b3"
      using True
      by (simp add: Caclulate16BitSum_eq b3_def b2_def b1_def sum16_ok_def round_up2_def INT_MAX_def)
    have f: "fix_header buf a plen = b3"
      by (simp add: fix_header_def Let_def b3_def b2_def b1_def)
    show ?thesis
      unfolding update_partition_def a_def [symmetric] plen_def [symmetric] Let_def
        M32_FIRMWARE_UTIL_FW_DATA_LENGTH_OFFSET_def M32_FIRMWARE_UTIL_FW_HEADER_LENGTH_def
        CHECKUM_PATCHER_DATA_CHECKSUM_OFFSET_def CHECKUM_PATCHER_HEADER_CHECKSUM_OFFSET_def
        n l Option.bind.bind_lunit st c1 f partition_ok_def
      using True c2 by simp
  qed
qed

section \<open>The two loops\<close>

declare find_partitions.simps [simp del]
declare update_partitions.simps [simp del]

lemma update_partitions_eq:
  "update_partitions buf hs st cnt p =
     (if \<forall>q. p \<le> q \<and> q < cnt \<longrightarrow> partition_ok (length buf) (hs ! q) (partition_length hs st q)
      then Some (fix_all buf hs st cnt p) else None)"
proof (induction buf hs st cnt p rule: update_partitions.induct)
  case (1 buffer headerAddresses st_size partitionCount partn)
  show ?case
  proof (cases "partn < partitionCount")
    case False
    then show ?thesis
      by (subst update_partitions.simps) (simp add: fix_all_def)
  next
    case True
    have upt: "[partn..<partitionCount] = partn # [partn + 1..<partitionCount]"
      using True by (simp add: upt_conv_Cons)
    show ?thesis
    proof (cases "partition_ok (length buffer) (headerAddresses ! partn)
                    (partition_length headerAddresses st_size partn)")
      case False
      then show ?thesis
        using True by (subst update_partitions.simps) (auto simp add: update_partition_eq)
    next
      case ok: True
      define b where "b = fix_header buffer (headerAddresses ! partn)
                    (partition_length headerAddresses st_size partn)"
      have up: "update_partition buffer headerAddresses st_size partn = Some b"
        using ok by (simp add: update_partition_eq b_def)
      have all: "(\<forall>q. partn \<le> q \<and> q < partitionCount \<longrightarrow>
                   partition_ok (length buffer) (headerAddresses ! q) (partition_length headerAddresses st_size q))
              \<longleftrightarrow> (\<forall>q. partn + 1 \<le> q \<and> q < partitionCount \<longrightarrow>
                   partition_ok (length buffer) (headerAddresses ! q) (partition_length headerAddresses st_size q))"
        using ok by (metis Suc_eq_plus1 Suc_leI le_neq_implies_less Suc_leD)
      have fa: "fix_all buffer headerAddresses st_size partitionCount partn =
                fix_all b headerAddresses st_size partitionCount (partn + 1)"
        unfolding fix_all_def upt b_def by simp
      have lb: "length b = length buffer" by (simp add: b_def)
      show ?thesis
        apply (subst update_partitions.simps)
        using True "1.IH" [OF True up] by (simp add: up all fa lb)
    qed
  qed
qed

lemma find_partitions_eq:
  "c < 16 \<Longrightarrow> length hs = 16 \<Longrightarrow> \<forall>j. i \<le> j \<and> j < n \<longrightarrow> j + length magic \<le> length buf \<Longrightarrow>
   find_partitions buf magic n i hs c =
     Some (take c hs @ take (16 - c) (filter (match_at buf magic) [i..<n])
             @ drop (c + length (take (16 - c) (filter (match_at buf magic) [i..<n]))) hs,
           c + length (take (16 - c) (filter (match_at buf magic) [i..<n])))"
proof (induction buf magic n i hs c rule: find_partitions.induct)
  case (1 buffer magic bound bufferIndex headerAddresses partitionCount)
  show ?case
  proof (cases "bufferIndex < bound")
    case False
    then show ?thesis
      by (subst find_partitions.simps) simp
  next
    case True
    have upt: "[bufferIndex..<bound] = bufferIndex # [bufferIndex + 1..<bound]"
      using True by (simp add: upt_conv_Cons)
    have mc: "memcmp_eq buffer bufferIndex magic = Some (match_at buffer magic bufferIndex)"
      using "1.prems" True by (simp add: memcmp_eq_def match_at_def)
    show ?thesis
    proof (cases "match_at buffer magic bufferIndex")
      case False
      have ih: "find_partitions buffer magic bound (bufferIndex + 1) headerAddresses partitionCount = 
        Some (take partitionCount headerAddresses @ take (16 - partitionCount) (filter (match_at buffer magic) [bufferIndex + 1..<bound])
             @ drop (partitionCount + length (take (16 - partitionCount) (filter (match_at buffer magic) [bufferIndex + 1..<bound]))) headerAddresses,
           partitionCount + length (take (16 - partitionCount) (filter (match_at buffer magic) [bufferIndex + 1..<bound])))"
        using "1.IH"(2) [OF True mc] False "1.prems" by simp
      show ?thesis
        apply (subst find_partitions.simps)
        using True False ih by (simp add: mc upt)
    next
      case m: True
      show ?thesis
      proof (cases "partitionCount + 1 = M32_FIRMWARE_UTIL_MAX_PARTITIONS")
        case full: True
        then have pc: "partitionCount = 15"
          by (simp add: M32_FIRMWARE_UTIL_MAX_PARTITIONS_def)
        have "headerAddresses[partitionCount := bufferIndex] =
              take partitionCount headerAddresses @ bufferIndex # drop (Suc partitionCount) headerAddresses"
          using "1.prems" by (simp add: upd_conv_take_nth_drop)
        then show ?thesis
          apply (subst find_partitions.simps)
          unfolding M32_FIRMWARE_UTIL_MAX_PARTITIONS_def
          using True m "1.prems"(2) by (simp add: mc upt pc)
      next
        case nfull: False
        then have c1: "partitionCount + 1 < 16"
          using "1.prems" by (simp add: M32_FIRMWARE_UTIL_MAX_PARTITIONS_def)
        define hs' where "hs' = headerAddresses[partitionCount := bufferIndex]"
        define ms where "ms = take (16 - (partitionCount + 1)) (filter (match_at buffer magic) [bufferIndex + 1..<bound])"
        have ih: "find_partitions buffer magic bound (bufferIndex + 1) hs' (partitionCount + 1) =
          Some (take (partitionCount + 1) hs' @ ms @ drop (partitionCount + 1 + length ms) hs',
                partitionCount + 1 + length ms)"
          unfolding hs'_def ms_def
          using "1.IH"(1) [OF True mc _ nfull] m c1 "1.prems" by simp
        have t1: "take (partitionCount + 1) hs' = take partitionCount headerAddresses @ [bufferIndex]"
          using "1.prems" by (simp add: hs'_def take_Suc_conv_app_nth)
        have t2: "drop (partitionCount + 1 + length ms) hs' = drop (partitionCount + 1 + length ms) headerAddresses"
          by (simp add: hs'_def)
        have t3: "take (16 - partitionCount) (filter (match_at buffer magic) [bufferIndex..<bound]) = bufferIndex # ms"
          using m c1 by (simp add: upt ms_def take_Cons')
        have nf: "partitionCount + 1 \<noteq> 16"
          using c1 by simp
        show ?thesis
          apply (subst find_partitions.simps)
          unfolding M32_FIRMWARE_UTIL_MAX_PARTITIONS_def
          using True m nf ih t1 t2 t3 unfolding hs'_def by (simp add: mc)
      qed
    qed
  qed
qed

section \<open>What the search records\<close>

lemma size_sub_lt: "size_sub a b < 2 ^ 64"
  by (simp add: size_sub_def)

lemma size_sub_le: "b \<le> a \<Longrightarrow> b < 2 ^ 64 \<Longrightarrow> size_sub a b \<le> a - b"
proof -
  assume h: "b \<le> a" "b < 2 ^ 64"
  have "size_sub a b = (a - b + 2 ^ 64) mod 2 ^ 64"
    using h by (simp add: size_sub_def)
  also have "\<dots> = (a - b) mod 2 ^ 64" by simp
  also have "\<dots> \<le> a - b" by (rule mod_less_eq_dividend)
  finally show ?thesis .
qed

lemma size_sub_eq: "b \<le> a \<Longrightarrow> a < 2 ^ 64 \<Longrightarrow> size_sub a b = a - b"
proof -
  assume h: "b \<le> a" "a < 2 ^ 64"
  have "size_sub a b = (a - b + 2 ^ 64) mod 2 ^ 64"
    using h by (simp add: size_sub_def)
  also have "\<dots> = (a - b) mod 2 ^ 64" by simp
  also have "\<dots> = a - b" using h by simp
  finally show ?thesis .
qed

lemma size_sub_wrap: "a < b \<Longrightarrow> b < 2 ^ 64 \<Longrightarrow> size_sub a b = a + 2 ^ 64 - b"
  by (simp add: size_sub_def)

lemma magic_length: "device \<in> set M32FirmwareUtilDeviceInfos \<Longrightarrow>
    length (bytes_of (RecoveryHeaderStart device)) = 12"
  by (auto simp add: M32FirmwareUtilDeviceInfos_def M30_def M32_def R32_def M60_def bytes_of_def)

lemma length_recorded: "length (recorded device file) \<le> 16"
  by (simp add: recorded_def)

lemma recorded_sorted: "sorted_wrt (<) (recorded device file)"
  unfolding recorded_def
  by (intro sorted_wrt_take sorted_wrt_filter) simp

lemma recorded_set:
  "a \<in> set (recorded device file) \<Longrightarrow>
     a < size_sub (length file) 80 \<and> match_at file (bytes_of (RecoveryHeaderStart device)) a"
  unfolding recorded_def M32_FIRMWARE_UTIL_FW_HEADER_LENGTH_def
  by (auto dest!: in_set_takeD)

lemma scan_image_eq:
  assumes "80 \<le> length file" "length (RecoveryHeaderStart device) \<le> 81"
  shows "scan_image device file =
     Some (recorded device file @ replicate (16 - length (recorded device file)) SIZE_MAX,
           length (recorded device file))"
proof -
  have b: "size_sub (length file) 80 \<le> length file - 80"
    using assms by (intro size_sub_le) simp_all
  have inb: "\<forall>j. 0 \<le> j \<and> j < size_sub (length file) 80 \<longrightarrow>
      j + length (bytes_of (RecoveryHeaderStart device)) \<le> length file"
    using assms b by (auto simp add: bytes_of_def)
  show ?thesis
    unfolding scan_image_def M32_FIRMWARE_UTIL_FW_HEADER_LENGTH_def M32_FIRMWARE_UTIL_MAX_PARTITIONS_def
    using find_partitions_eq [OF _ _ inb, of 0 "replicate 16 SIZE_MAX"]
    by (simp add: recorded_def M32_FIRMWARE_UTIL_FW_HEADER_LENGTH_def)
qed

section \<open>The header checksum\<close>

lemma fix_header_nth:
  "j < a + 14 \<or> a + 80 \<le> j \<Longrightarrow> fix_header buf a plen ! j = buf ! j"
  by (auto simp add: fix_header_def Let_def store16_def)

lemma region_eqI:
  assumes "length b' = length b" "\<And>i. i < n \<Longrightarrow> a + i < length b \<Longrightarrow> b' ! (a + i) = b ! (a + i)"
  shows "take n (drop a b') = take n (drop a b)"
proof (rule nth_equalityI)
  show "length (take n (drop a b')) = length (take n (drop a b))"
    using assms(1) by simp
next
  fix i assume "i < length (take n (drop a b'))"
  then have i: "i < n" "a + i < length b"
    using assms(1) by auto
  then show "take n (drop a b') ! i = take n (drop a b) ! i"
    using assms by simp
qed

lemma tail_eqI:
  assumes "length b' = length b" "\<And>j. a \<le> j \<Longrightarrow> j < length b \<Longrightarrow> b' ! j = b ! j"
  shows "drop a b' = drop a b"
proof (rule nth_equalityI)
  show "length (drop a b') = length (drop a b)"
    using assms(1) by simp
next
  fix i assume "i < length (drop a b')"
  then have "a + i < length b"
    using assms(1) by simp
  then show "drop a b' ! i = drop a b ! i"
    using assms by simp
qed

lemma fix_header_take_below:
  "a' + n \<le> a + 14 \<Longrightarrow> take n (drop a' (fix_header buf a plen)) = take n (drop a' buf)"
  by (rule region_eqI) (simp_all add: fix_header_nth)

lemma fix_header_drop_above:
  "a + 80 \<le> a' \<Longrightarrow> drop a' (fix_header buf a plen) = drop a' buf"
  by (rule tail_eqI) (simp_all add: fix_header_nth)

lemma le_words_append:
  "even (length xs) \<Longrightarrow> le_words (xs @ ys) = le_words xs @ le_words ys"
  by (induction xs rule: le_words.induct) simp_all

lemma add_carry_inverted: "add_carry s (0xFFFF - s) = 0xFFFF"
proof -
  have "\<not> (0xFFFF :: 16 word) < x" for x
    using unsigned_less [of x, where 'a = nat] by (simp add: word_less_nat_alt)
  then show ?thesis by (simp add: add_carry_def Let_def)
qed

lemma spec_sum_inverted:
  assumes "even (length xs)"
  shows "spec_Sum16Carry (xs @ [ucast (spec_Sum16Carry xs True AND 0xFF),
                               ucast (drop_bit 8 (spec_Sum16Carry xs True) AND 0xFF)]) False = 0xFFFF"
  using assms
  by (simp add: spec_Sum16Carry_def Let_def foldl_add_carry le_words_append le16_split
        add_carry_inverted)

lemma take_80_split:
  "a + 80 \<le> length b \<Longrightarrow>
   take 80 (drop a b) = take 78 (drop a b) @ [b ! (a + 78), b ! (a + 79)]"
proof -
  assume h: "a + 80 \<le> length b"
  have "take (78 + 2) (drop a b) = take 78 (drop a b) @ take 2 (drop 78 (drop a b))"
    by (rule take_add)
  moreover have "take 2 (drop 78 (drop a b)) = [b ! (a + 78), b ! (a + 79)]"
    using take_drop_two [of "a + 78" b 2] h by (simp add: add.commute)
  ultimately show ?thesis by simp
qed

lemma fix_header_sum:
  assumes "a + 80 \<le> length buf"
  shows "spec_Sum16Carry (take 80 (drop a (fix_header buf a plen))) False = 0xFFFF"
proof -
  define b1 where "b1 = buf[a + 44 := byte_of_size plen 0, a + 45 := byte_of_size plen 8,
                   a + 46 := byte_of_size plen 16, a + 47 := byte_of_size plen 24]"
  define b2 where "b2 = store16 b1 (a + 14)
                 (spec_Sum16Carry (take (round_up2 plen) (drop (a + 80) b1)) False)"
  define h where "h = spec_Sum16Carry (take 78 (drop a b2)) True"
  define b3 where "b3 = store16 b2 (a + 78) h"
  have f: "fix_header buf a plen = b3"
    by (simp add: fix_header_def Let_def b3_def h_def b2_def b1_def)
  have len: "length b2 = length buf" "length b3 = length buf"
    by (simp_all add: b3_def b2_def b1_def)
  have t78: "take 78 (drop a b3) = take 78 (drop a b2)"
    by (rule region_eqI) (simp_all add: b3_def store16_def)
  have n78: "b3 ! (a + 78) = ucast (h AND 0xFF)" "b3 ! (a + 79) = ucast (drop_bit 8 h AND 0xFF)"
    using assms len by (simp_all add: b3_def store16_def nth_list_update)
  have "take 80 (drop a b3) = take 78 (drop a b2) @ [ucast (h AND 0xFF), ucast (drop_bit 8 h AND 0xFF)]"
    using take_80_split [of a b3] assms len by (simp add: t78 n78)
  moreover have "even (length (take 78 (drop a b2)))"
    using assms len by simp
  ultimately show ?thesis
    unfolding f h_def by (simp only: spec_sum_inverted)
qed

lemma fix_all_Suc:
  "p \<le> cnt \<Longrightarrow> fix_all buf hs st (Suc cnt) p =
     fix_header (fix_all buf hs st cnt p) (hs ! cnt) (partition_length hs st cnt)"
  by (simp add: fix_all_def)

lemma length_fix_all [simp]: "length (fix_all buf hs st cnt p) = length buf"
proof (induction cnt)
  case 0
  then show ?case by (simp add: fix_all_def)
next
  case (Suc cnt)
  show ?case
  proof (cases "p \<le> cnt")
    case True
    then show ?thesis using Suc by (simp add: fix_all_Suc)
  next
    case False
    then show ?thesis by (simp add: fix_all_def)
  qed
qed

lemma fix_all_header_sum:
  "p < cnt \<Longrightarrow> \<forall>q. p < q \<and> q < cnt \<longrightarrow> hs ! p + 80 \<le> hs ! q \<Longrightarrow> hs ! p + 80 \<le> length buf \<Longrightarrow>
   spec_Sum16Carry (take 80 (drop (hs ! p) (fix_all buf hs st cnt 0))) False = 0xFFFF"
proof (induction cnt)
  case 0
  then show ?case by simp
next
  case (Suc cnt)
  show ?case
  proof (cases "p = cnt")
    case True
    then show ?thesis
      using Suc.prems by (simp add: fix_all_Suc fix_header_sum)
  next
    case False
    with Suc.prems have lt: "p < cnt" by simp
    have gap: "hs ! p + 80 \<le> hs ! cnt"
      using Suc.prems lt by simp
    have "take 80 (drop (hs ! p) (fix_all buf hs st (Suc cnt) 0)) =
          take 80 (drop (hs ! p) (fix_all buf hs st cnt 0))"
      using gap by (simp add: fix_all_Suc fix_header_take_below)
    then show ?thesis
      using Suc.IH [OF lt] Suc.prems by simp
  qed
qed

section \<open>Recorded headers do not overlap in a run that returns\<close>

lemma recorded_lt_SIZE_MAX: "a \<in> set (recorded device file) \<Longrightarrow> a < SIZE_MAX"
  using recorded_set [of a device "file"] size_sub_lt [of "length file" 80]
  by (simp add: SIZE_MAX_def)

lemma hs_nth_recorded:
  "p < length A \<Longrightarrow> (A @ replicate (16 - length A) SIZE_MAX) ! p = A ! p"
  by (simp add: nth_append)

lemma hs_nth_rest:
  "length A \<le> p \<Longrightarrow> p < 16 \<Longrightarrow> (A @ replicate (16 - length A) SIZE_MAX) ! p = SIZE_MAX"
  by (simp add: nth_append)

lemma partition_length_next:
  assumes "p + 1 < length A" "length A \<le> 16" "\<forall>a \<in> set A. a < SIZE_MAX"
  shows "partition_length (A @ replicate (16 - length A) SIZE_MAX) st p =
           size_sub (size_sub (A ! (p + 1)) (A ! p)) 80"
proof -
  have "A ! (p + 1) \<in> set A" using assms by simp
  then have "A ! (p + 1) \<noteq> SIZE_MAX" using assms by fastforce
  then show ?thesis
    using assms
    by (simp add: partition_length_def nth_append M32_FIRMWARE_UTIL_MAX_PARTITIONS_def
          M32_FIRMWARE_UTIL_FW_HEADER_LENGTH_def)
qed

lemma partition_length_last:
  assumes "p + 1 = length A" "length A \<le> 16"
  shows "partition_length (A @ replicate (16 - length A) SIZE_MAX) st p =
           size_sub (size_sub st (A ! p)) 80"
  using assms
  by (auto simp add: partition_length_def nth_append M32_FIRMWARE_UTIL_MAX_PARTITIONS_def
        M32_FIRMWARE_UTIL_FW_HEADER_LENGTH_def)

lemma sum16_ok_small: "sum16_ok len b n \<Longrightarrow> n < INT_MAX"
  by (auto simp add: sum16_ok_def INT_MAX_def)

lemma gap_of_ok:
  assumes ok: "partition_ok len (A ! p) (partition_length (A @ replicate (16 - length A) SIZE_MAX) st p)"
    and p: "p + 1 < length A" and l: "length A \<le> 16"
    and s: "sorted_wrt (<) A" and m: "\<forall>a \<in> set A. a < SIZE_MAX"
  shows "A ! p + 80 \<le> A ! (p + 1)"
proof (rule ccontr)
  assume n: "\<not> A ! p + 80 \<le> A ! (p + 1)"
  have lt: "A ! p < A ! (p + 1)"
    using s p by (simp add: sorted_wrt_nth_less)
  have "A ! (p + 1) \<in> set A"
    using p by simp
  then have "A ! (p + 1) < SIZE_MAX"
    using m by blast
  then have b: "A ! (p + 1) < 2 ^ 64"
    by (simp add: SIZE_MAX_def)
  have d: "size_sub (A ! (p + 1)) (A ! p) = A ! (p + 1) - A ! p"
    using lt b by (intro size_sub_eq) simp_all
  have "size_sub (A ! (p + 1) - A ! p) 80 = A ! (p + 1) - A ! p + 2 ^ 64 - 80"
    using n by (intro size_sub_wrap) simp_all
  then have "partition_length (A @ replicate (16 - length A) SIZE_MAX) st p \<ge> 2 ^ 64 - 80"
    using partition_length_next [OF p l m] d by simp
  moreover have "partition_length (A @ replicate (16 - length A) SIZE_MAX) st p < INT_MAX"
    using ok by (auto simp add: partition_ok_def dest: sum16_ok_small)
  ultimately show False by (simp add: INT_MAX_def)
qed

lemma gaps_of_ok:
  assumes ok: "\<forall>q. q < length A \<longrightarrow>
      partition_ok len (A ! q) (partition_length (A @ replicate (16 - length A) SIZE_MAX) st q)"
    and l: "length A \<le> 16" and s: "sorted_wrt (<) A" and m: "\<forall>a \<in> set A. a < SIZE_MAX"
    and pq: "p < q" "q < length A"
  shows "A ! p + 80 \<le> A ! q"
proof -
  have "partition_ok len (A ! p) (partition_length (A @ replicate (16 - length A) SIZE_MAX) st p)"
    using ok pq by simp
  moreover have "p + 1 < length A"
    using pq by simp
  ultimately have "A ! p + 80 \<le> A ! (p + 1)"
    using l s m by (rule gap_of_ok)
  moreover have "A ! (p + 1) \<le> A ! q"
  proof (cases "p + 1 = q")
    case True then show ?thesis by simp
  next
    case False
    then have "A ! (p + 1) < A ! q"
      using s pq by (intro sorted_wrt_nth_less) simp_all
    then show ?thesis by simp
  qed
  ultimately show ?thesis by simp
qed

section \<open>The operation as a whole\<close>

lemma scan_image_recorded:
  assumes "80 \<le> length file" "device \<in> set M32FirmwareUtilDeviceInfos"
  shows "scan_image device file =
           Some (header_array (recorded device file), length (recorded device file))"
proof -
  have "length (RecoveryHeaderStart device) \<le> 81"
    using magic_length [OF assms(2)] by (simp add: bytes_of_def)
  then show ?thesis
    using assms(1) by (simp add: scan_image_eq header_array_def)
qed

lemma UpdateHeader_eq:
  assumes "80 \<le> length file" "device \<in> set M32FirmwareUtilDeviceInfos"
  shows "UpdateHeaderInRecoveryImage env outputFile device file =
     (if \<not> malloc_ok env (length file) then Some (failed UnableToAllocate)
      else if \<not> fread_ok env then Some (failed UnableToRead)
      else if repair_ok device file then
        Some (if recorded device file = [] then failed NoPartitionsFound
              else if \<not> fwrite_ok env outputFile then failed ErrorDuringWriting
              else succeeded (repaired device file))
      else None)"
proof -
  have ok: "(\<forall>q. q < length (recorded device file) \<longrightarrow>
        partition_ok (length file) (header_array (recorded device file) ! q)
          (partition_length (header_array (recorded device file)) (length file) q))
        \<longleftrightarrow> repair_ok device file"
    by (auto simp add: repair_ok_def header_array_def nth_append)
  show ?thesis
    unfolding UpdateHeaderInRecoveryImage_def scan_image_recorded [OF assms]
    by (simp add: update_partitions_eq ok repaired_def)
qed


section \<open>Evaluating concrete lists\<close>

lemma replicate_numeral: "replicate (numeral k) x = x # replicate (pred_numeral k) x"
  by (simp add: numeral_eq_Suc)

lemma list_update_Cons_numeral: "(x # xs)[numeral k := y] = x # xs[pred_numeral k := y]"
  by (simp add: numeral_eq_Suc)

lemmas eval_list = replicate_numeral list_update_Cons_numeral

lemma M32_in_table: "M32 \<in> set M32FirmwareUtilDeviceInfos"
  by (simp add: M32FirmwareUtilDeviceInfos_def)

lemma length_image_one: "length image_one = 84"
  by (simp add: image_one_def bytes_of_def)

lemma recorded_image_one: "recorded M32 image_one = [0]"
  by (simp add: recorded_def length_image_one size_sub_def M32_FIRMWARE_UTIL_FW_HEADER_LENGTH_def
      match_at_def image_one_def M32_def bytes_of_def upt_rec)

lemma repair_ok_image_one: "repair_ok M32 image_one"
  by (simp add: repair_ok_def recorded_image_one length_image_one partition_ok_def sum16_ok_def
      header_array_def partition_length_def M32_FIRMWARE_UTIL_FW_HEADER_LENGTH_def
      M32_FIRMWARE_UTIL_MAX_PARTITIONS_def SIZE_MAX_def size_sub_def round_up2_def INT_MAX_def)

lemma partition_length_image_one: "partition_length (header_array [0]) 84 0 = 4"
  by (simp add: header_array_def partition_length_def M32_FIRMWARE_UTIL_FW_HEADER_LENGTH_def
      M32_FIRMWARE_UTIL_MAX_PARTITIONS_def SIZE_MAX_def size_sub_def)

lemma fix_header_image_one: "fix_header image_one 0 4 = image_one_repaired"
  by (simp add: fix_header_def Let_def round_up2_def eval_list
      byte_of_size_def store16_def spec_Sum16Carry_def le16_def
      image_one_def image_one_repaired_def bytes_of_def)

lemma header_array_nth: "p < length A \<Longrightarrow> header_array A ! p = A ! p"
  by (simp add: header_array_def nth_append)

lemma repaired_image_one: "repaired M32 image_one = image_one_repaired"
  by (simp add: repaired_def recorded_image_one length_image_one fix_all_def
      partition_length_image_one fix_header_image_one header_array_nth)

lemma run_image_one:
  "UpdateHeaderInRecoveryImage env_ok ''out.bin'' M32 image_one = Some (succeeded image_one_repaired)"
  using UpdateHeader_eq [of image_one M32 env_ok "''out.bin''"]
  by (simp add: length_image_one M32_in_table repair_ok_image_one recorded_image_one
      repaired_image_one env_ok_def)

lemma scan_offsets_recorded:
  assumes "80 \<le> length file" "device \<in> set M32FirmwareUtilDeviceInfos"
  shows "scan_offsets device file = Some (recorded device file)"
  by (simp add: scan_offsets_def scan_image_recorded [OF assms] header_array_def)

lemma find_partitions_stop:
  "find_partitions buf magic n i hs c = Some (hs', 16) \<Longrightarrow> c < 16 \<Longrightarrow> n \<le> n' \<Longrightarrow>
   find_partitions buf magic n' i hs c = Some (hs', 16)"
proof (induction buf magic n i hs c rule: find_partitions.induct)
  case (1 buffer magic bound bufferIndex headerAddresses partitionCount)
  have lt: "bufferIndex < bound"
    using "1.prems" by (subst (asm) find_partitions.simps) (auto split: if_splits)
  then have lt': "bufferIndex < n'"
    using "1.prems" by simp
  obtain m where mc: "memcmp_eq buffer bufferIndex magic = Some m"
    using "1.prems"(1) lt by (subst (asm) find_partitions.simps) (auto split: option.splits)
  show ?case
  proof (cases m)
    case False
    have "find_partitions buffer magic bound (bufferIndex + 1) headerAddresses partitionCount = Some (hs', 16)"
      using "1.prems"(1) lt mc False by (subst (asm) find_partitions.simps) simp
    then have "find_partitions buffer magic n' (bufferIndex + 1) headerAddresses partitionCount = Some (hs', 16)"
      using "1.IH"(2) [OF lt mc] False "1.prems" by simp
    then show ?thesis
      using lt' mc False by (subst find_partitions.simps) simp
  next
    case True
    show ?thesis
    proof (cases "partitionCount + 1 = M32_FIRMWARE_UTIL_MAX_PARTITIONS")
      case full: True
      have "Some (headerAddresses[partitionCount := bufferIndex], partitionCount + 1) = Some (hs', 16)"
        using "1.prems"(1) lt mc True full by (subst (asm) find_partitions.simps) auto
      then show ?thesis
        using lt' mc True full by (subst find_partitions.simps) auto
    next
      case nfull: False
      then have c1: "partitionCount + 1 < 16"
        using "1.prems" by (simp add: M32_FIRMWARE_UTIL_MAX_PARTITIONS_def)
      have "find_partitions buffer magic bound (bufferIndex + 1)
              (headerAddresses[partitionCount := bufferIndex]) (partitionCount + 1) = Some (hs', 16)"
        using "1.prems"(1) lt mc True nfull by (subst (asm) find_partitions.simps) simp
      then have "find_partitions buffer magic n' (bufferIndex + 1)
              (headerAddresses[partitionCount := bufferIndex]) (partitionCount + 1) = Some (hs', 16)"
        using "1.IH"(1) [OF lt mc _ nfull] True c1 "1.prems" by simp
      then show ?thesis
        using lt' mc True nfull by (subst find_partitions.simps) simp
    qed
  qed
qed


section \<open>Spans of buffers and the header writers\<close>

lemma store_bytes_eq:
  "store_bytes mem a bs = (if a + length bs \<le> length mem then Some (overwrite mem a bs) else None)"
  by (simp add: store_bytes_def overwrite_def)

lemma read_bytes_eq:
  "read_bytes mem a n = (if a + n \<le> length mem then Some (win mem a n) else None)"
  by (simp add: read_bytes_def win_def)

lemma length_overwrite [simp]:
  "a + length bs \<le> length mem \<Longrightarrow> length (overwrite mem a bs) = length mem"
  by (simp add: overwrite_def)

lemma length_win [simp]: "a + n \<le> length mem \<Longrightarrow> length (win mem a n) = n"
  by (simp add: win_def)

lemma win_overwrite_same:
  "a + length bs \<le> length mem \<Longrightarrow> n = length bs \<Longrightarrow> win (overwrite mem a bs) a n = bs"
  by (simp add: win_def overwrite_def)

lemma win_overwrite_below:
  "b + k \<le> a \<Longrightarrow> a + length bs \<le> length mem \<Longrightarrow> win (overwrite mem a bs) b k = win mem b k"
  by (simp add: win_def overwrite_def take_drop)

lemma win_overwrite_above:
  "a + length bs \<le> b \<Longrightarrow> a + length bs \<le> length mem \<Longrightarrow>
   win (overwrite mem a bs) b k = win mem b k"
proof -
  assume h: "a + length bs \<le> b" "a + length bs \<le> length mem"
  have "drop b (take a mem @ bs @ drop (a + length bs) mem) = drop b mem"
    using h by (simp add: min_absorb2)
  then show ?thesis by (simp add: win_def overwrite_def)
qed

lemma win_add: "win mem a (j + k) = win mem a j @ win mem (a + j) k"
  by (simp add: win_def take_add add.commute)

lemma win_take: "k \<le> n \<Longrightarrow> win mem a k = take k (win mem a n)"
  by (simp add: win_def min_absorb1)

lemma win_all: "win mem 0 (length mem) = mem"
  by (simp add: win_def)

lemma win_append_left: "a + k \<le> length xs \<Longrightarrow> win (xs @ ys) a k = win xs a k"
  by (simp add: win_def)

lemma win_append_right: "length xs \<le> a \<Longrightarrow> win (xs @ ys) a k = win ys (a - length xs) k"
  by (simp add: win_def)

lemma load8_win: "i < n \<Longrightarrow> a + n \<le> length mem \<Longrightarrow> load8 mem (a + i) = Some (win mem a n ! i)"
  by (simp add: load8_def win_def)

lemma list16:
  assumes "length (h :: 'a list) = 16"
  obtains x0 x1 x2 x3 x4 x5 x6 x7 x8 x9 x10 x11 x12 x13 x14 x15
  where "h = [x0, x1, x2, x3, x4, x5, x6, x7, x8, x9, x10, x11, x12, x13, x14, x15]"
  using assms by (auto simp add: numeral_eq_Suc length_Suc_conv)

lemma upt14: "[0..<14] = [0, 1, 2, 3, 4, 5, 6, 7, 8, 9, 10, 11, 12, 13]"
  by (simp add: upt_rec)

lemma header_sums_16:
  "header_sums [x0, x1, x2, x3, x4, x5, x6, x7, x8, x9, x10, x11, x12, x13, 0, 0] =
     with_sums [x0, x1, x2, x3, x4, x5, x6, x7, x8, x9, x10, x11, x12, x13]"
  by (simp add: header_sums_def upt14 with_sums_def spec_ByteSumXor_def eval_list ac_simps)

lemma length_verification_header [simp]: "length (verification_header n) = 16"
  by (simp add: verification_header_def with_sums_def length_bytes_le_def bytes_of_def)

lemma length_encryption_header [simp]: "length (encryption_header n) = 16"
  by (simp add: encryption_header_def with_sums_def length_bytes_le_def bytes_of_def)

lemma CreateSha512VerificatioinHeader_eq:
  "CreateSha512VerificatioinHeader mem buffer n =
     (if buffer + 16 \<le> length mem then Some (overwrite mem buffer (verification_header n), 0)
      else None)"
proof (cases "buffer + 16 \<le> length mem")
  case False
  then show ?thesis by (simp add: CreateSha512VerificatioinHeader_def read_bytes_eq)
next
  case True
  then have "length (win mem buffer 16) = 16" by simp
  then obtain x0 x1 x2 x3 x4 x5 x6 x7 x8 x9 x10 x11 x12 x13 x14 x15
    where w: "win mem buffer 16 = [x0, x1, x2, x3, x4, x5, x6, x7, x8, x9, x10, x11, x12, x13, x14, x15]"
    by (rule list16)
  show ?thesis
    using True
    by (simp add: CreateSha512VerificatioinHeader_def read_bytes_eq w store_bytes_eq
          M32FirmwareUtilHeaderStart_def bytes_of_def eval_list header_sums_16
          verification_header_def length_bytes_le_def with_sums_def)
qed

lemma CreateAes128CbcEncryptionHeader_eq:
  "CreateAes128CbcEncryptionHeader mem buffer n =
     (if buffer + 16 \<le> length mem then Some (overwrite mem buffer (encryption_header n), 0)
      else None)"
proof (cases "buffer + 16 \<le> length mem")
  case False
  then show ?thesis by (simp add: CreateAes128CbcEncryptionHeader_def read_bytes_eq)
next
  case True
  then have "length (win mem buffer 16) = 16" by simp
  then obtain x0 x1 x2 x3 x4 x5 x6 x7 x8 x9 x10 x11 x12 x13 x14 x15
    where w: "win mem buffer 16 = [x0, x1, x2, x3, x4, x5, x6, x7, x8, x9, x10, x11, x12, x13, x14, x15]"
    by (rule list16)
  show ?thesis
    using True
    by (simp add: CreateAes128CbcEncryptionHeader_def read_bytes_eq w store_bytes_eq
          M32FirmwareUtilHeaderStart_def bytes_of_def eval_list header_sums_16
          encryption_header_def length_bytes_le_def with_sums_def)
qed

section \<open>Decoding a length\<close>

lemma bit_byte_of_size: "bit (byte_of_size n k) i \<longleftrightarrow> i < 8 \<and> bit n (k + i)"
proof -
  have "(of_nat ((n div 2 ^ k) mod 256) :: byte) = of_nat (n div 2 ^ k)"
    using word_of_nat_eq_iff [where 'a = 8, of "(n div 2 ^ k) mod 256" "n div 2 ^ k"]
    by (simp add: take_bit_eq_mod)
  then have "byte_of_size n k = of_nat (drop_bit k n)"
    by (simp add: byte_of_size_def drop_bit_eq_div)
  then show ?thesis
    by (auto simp add: bit_simps)
qed

lemma le32_of_size:
  "le32_int (byte_of_size n 0) (byte_of_size n 8) (byte_of_size n 16) (byte_of_size n 24) = of_nat n"
proof (rule bit_word_eqI)
  fix i assume i: "i < LENGTH(32)"
  consider "i < 8" | "8 \<le> i" "i < 16" | "16 \<le> i" "i < 24" | "24 \<le> i" "i < 32"
    using i by fastforce
  then show "bit (le32_int (byte_of_size n 0) (byte_of_size n 8) (byte_of_size n 16)
                 (byte_of_size n 24)) i = bit (word_of_nat n :: 32 word) i"
  proof cases
    case 1
    then show ?thesis by (simp add: le32_int_def bit_simps bit_byte_of_size)
  next
    case 2
    then show ?thesis by (auto simp add: le32_int_def bit_simps bit_byte_of_size)
  next
    case 3
    then show ?thesis by (auto simp add: le32_int_def bit_simps bit_byte_of_size)
  next
    case 4
    then show ?thesis by (auto simp add: le32_int_def bit_simps bit_byte_of_size)
  qed
qed

lemma int_to_size_t_of_nat:
  assumes "n < 2 ^ 31"
  shows "int_to_size_t (of_nat n) = n"
proof -
  have s: "sint (word_of_nat n :: 32 word) = int n"
    using assms by (simp add: signed_of_nat signed_take_bit_int_eq_self)
  have "n < 2 ^ 64"
    using assms by simp
  then have "unat (word_of_int (int n) :: 64 word) = n"
    by (simp add: unat_of_nat)
  then show ?thesis
    by (simp add: int_to_size_t_def scast_eq s)
qed

lemma decode_length: "n < 2 ^ 31 \<Longrightarrow>
  int_to_size_t (le32_int (byte_of_size n 0) (byte_of_size n 8) (byte_of_size n 16) (byte_of_size n 24)) = n"
  by (simp add: le32_of_size int_to_size_t_of_nat)

lemma verification_header_bytes:
  "verification_header n =
     [0x4D, 0x48, 0x30, 0x31, byte_of_size n 0, byte_of_size n 8, byte_of_size n 16,
      byte_of_size n 24, 0x00, 0x01, 0x00, 0x00, 0x2B, 0x1A,
      fst (spec_ByteSumXor (take 14 (verification_header n))),
      snd (spec_ByteSumXor (take 14 (verification_header n)))]"
  by (simp add: verification_header_def with_sums_def bytes_of_def length_bytes_le_def)

lemma encryption_header_bytes:
  "encryption_header n =
     [0x4D, 0x48, 0x30, 0x31, 0x21, 0x00, 0x00, 0x00, byte_of_size n 0, byte_of_size n 8,
      byte_of_size n 16, byte_of_size n 24, 0x2B, 0x1A,
      fst (spec_ByteSumXor (take 14 (encryption_header n))),
      snd (spec_ByteSumXor (take 14 (encryption_header n)))]"
  by (simp add: encryption_header_def with_sums_def bytes_of_def length_bytes_le_def)

lemma loads_of_win:
  assumes "header + 16 \<le> length mem"
    and "win mem header 16 = [x0, x1, x2, x3, x4, x5, x6, x7, x8, x9, x10, x11, x12, x13, x14, x15]"
  shows "load8 mem header = Some x0" "load8 mem (header + 1) = Some x1"
    "load8 mem (header + 2) = Some x2" "load8 mem (header + 3) = Some x3"
    "load8 mem (header + 4) = Some x4" "load8 mem (header + 5) = Some x5"
    "load8 mem (header + 6) = Some x6" "load8 mem (header + 7) = Some x7"
    "load8 mem (header + 8) = Some x8" "load8 mem (header + 9) = Some x9"
    "load8 mem (header + 10) = Some x10" "load8 mem (header + 11) = Some x11"
  using load8_win [OF _ assms(1), of 0] load8_win [OF _ assms(1), of 1]
    load8_win [OF _ assms(1), of 2] load8_win [OF _ assms(1), of 3]
    load8_win [OF _ assms(1), of 4] load8_win [OF _ assms(1), of 5]
    load8_win [OF _ assms(1), of 6] load8_win [OF _ assms(1), of 7]
    load8_win [OF _ assms(1), of 8] load8_win [OF _ assms(1), of 9]
    load8_win [OF _ assms(1), of 10] load8_win [OF _ assms(1), of 11]
  by (simp_all add: assms(2))

lemma GetDataLengthFromVerificationHeader_eq:
  assumes "header + 16 \<le> length mem" and "win mem header 16 = verification_header n"
  shows "GetDataLengthFromVerificationHeader mem header d =
     Some (0, int_to_size_t (le32_int (byte_of_size n 0) (byte_of_size n 8)
                               (byte_of_size n 16) (byte_of_size n 24)))"
proof -
  define s x where "s = fst (spec_ByteSumXor (take 14 (verification_header n)))"
    and "x = snd (spec_ByteSumXor (take 14 (verification_header n)))"
  have w: "win mem header 16 =
     [0x4D, 0x48, 0x30, 0x31, byte_of_size n 0, byte_of_size n 8, byte_of_size n 16,
      byte_of_size n 24, 0x00, 0x01, 0x00, 0x00, 0x2B, 0x1A, s, x]"
    unfolding assms(2) s_def x_def by (rule verification_header_bytes)
  show ?thesis
    using loads_of_win [OF assms(1) w]
    by (simp add: GetDataLengthFromVerificationHeader_def header_has_magic_def)
qed

lemma GetDataLengthFromEncryptionHeader_eq:
  assumes "header + 16 \<le> length mem" and "win mem header 16 = encryption_header n"
  shows "GetDataLengthFromEncryptionHeader mem header d =
     Some (0, int_to_size_t (le32_int (byte_of_size n 0) (byte_of_size n 8)
                               (byte_of_size n 16) (byte_of_size n 24)))"
proof -
  define s x where "s = fst (spec_ByteSumXor (take 14 (encryption_header n)))"
    and "x = snd (spec_ByteSumXor (take 14 (encryption_header n)))"
  have w: "win mem header 16 =
     [0x4D, 0x48, 0x30, 0x31, 0x21, 0x00, 0x00, 0x00, byte_of_size n 0, byte_of_size n 8,
      byte_of_size n 16, byte_of_size n 24, 0x2B, 0x1A, s, x]"
    unfolding assms(2) s_def x_def by (rule encryption_header_bytes)
  show ?thesis
    using loads_of_win [OF assms(1) w]
    by (simp add: GetDataLengthFromEncryptionHeader_def header_has_magic_def)
qed


section \<open>Signing and writing the initialization vector\<close>

lemma signature_of_works:
  assumes "signing_works c device"
  shows "\<exists>digest priv.
           sha512 c data = Some digest
           \<and> pem_read_private_key c (PrivateKey device) (Passphrase device) = Some priv
           \<and> evp_sign c priv digest = Some (signature_of c device data)
           \<and> length (signature_of c device data) = 256"
proof -
  from assms obtain priv where
    p: "pem_read_private_key c (PrivateKey device) (Passphrase device) = Some priv"
    and s: "\<And>digest. \<exists>sig. evp_sign c priv digest = Some sig \<and> length sig = 256"
    by (auto simp add: signing_works_def M32_FIRMWARE_SIGNATURE_LENGTH_def)
  from assms obtain digest where d: "sha512 c data = Some digest"
    by (auto simp add: signing_works_def)
  from s [of digest] obtain sig where
    e: "evp_sign c priv digest = Some sig" "length sig = 256" by auto
  have "signature_of c device data = sig"
    by (simp add: signature_of_def p d e)
  then show ?thesis
    using p d e by simp
qed

lemma length_signature_of [simp]:
  "signing_works c device \<Longrightarrow> length (signature_of c device data) = 256"
  using signature_of_works [of c device data] by auto

lemma CreateSha512VerificatioinSignature_eq:
  assumes "signing_works c device"
  shows "CreateSha512VerificatioinSignature c indeterminate mem buffer n device =
     (if buffer + n + 256 \<le> length mem
      then Some (overwrite mem (buffer + n) (signature_of c device (win mem buffer n)),
                 0, indeterminate)
      else None)"
proof -
  from signature_of_works [OF assms, of "win mem buffer n"] obtain digest priv where
    "sha512 c (win mem buffer n) = Some digest"
    "pem_read_private_key c (PrivateKey device) (Passphrase device) = Some priv"
    "evp_sign c priv digest = Some (signature_of c device (win mem buffer n))"
    "length (signature_of c device (win mem buffer n)) = 256"
    by auto
  then show ?thesis
    by (auto simp add: CreateSha512VerificatioinSignature_def read_bytes_eq store_bytes_eq
          M32_FIRMWARE_SIGNATURE_LENGTH_def)
qed

lemma overwrite_overwrite:
  assumes "a + length xs + length ys \<le> length mem" "length zs \<le> length ys"
  shows "overwrite (overwrite mem a (xs @ zs)) (a + length xs) ys = overwrite mem a (xs @ ys)"
proof -
  have 1: "take (a + length xs) (take a mem @ xs @ zs @ drop (a + (length xs + length zs)) mem)
         = take a mem @ xs"
    using assms by (simp add: min_absorb2)
  have 2: "drop (a + length xs + length ys)
             (take a mem @ xs @ zs @ drop (a + (length xs + length zs)) mem)
         = drop (a + length xs + length ys) mem"
    using assms by (simp add: min_absorb2 ac_simps)
  show ?thesis
    using 1 2 by (simp add: overwrite_def add.assoc)
qed

lemma length_hexes [simp]: "length (hexes bs) = 2 * length bs"
  by (induction bs) (simp_all add: hexes_def)

lemma write_hex_eq:
  "bs \<noteq> [] \<Longrightarrow> write_hex mem a bs =
     (if a + 2 * length bs + 1 \<le> length mem then Some (overwrite mem a (hexes bs @ [0]))
      else None)"
proof (induction bs arbitrary: mem a)
  case Nil
  then show ?case by simp
next
  case (Cons b bs)
  define h where "h = [hex_digit (unat b div 16), hex_digit (unat b mod 16)]"
  have hx: "hexes (b # bs) = h @ hexes bs"
    by (simp add: hexes_def h_def)
  show ?case
  proof (cases "bs = []")
    case True
    then show ?thesis
      by (simp add: store_bytes_eq hexes_def)
  next
    case False
    show ?thesis
    proof (cases "a + 2 * length (b # bs) + 1 \<le> length mem")
      case fits: True
      have "overwrite (overwrite mem a (h @ [0])) (a + length h) (hexes bs @ [0]) =
            overwrite mem a (h @ hexes bs @ [0])"
        using fits by (intro overwrite_overwrite) (simp_all add: h_def)
      then show ?thesis
        using fits False Cons.IH [OF False, of "overwrite mem a (h @ [0])" "a + 2"]
        by (simp add: store_bytes_eq h_def [symmetric] hx) (simp add: h_def)
    next
      case nofit: False
      then show ?thesis
        using False Cons.IH [OF False, of "overwrite mem a (h @ [0])" "a + 2"]
        by (auto simp add: store_bytes_eq h_def [symmetric] hx) (auto simp add: h_def)
    qed
  qed
qed

lemma overwrite_last:
  assumes "a + length xs + 1 \<le> length mem"
  shows "(overwrite mem a (xs @ [z]))[a + length xs := y] = overwrite mem a (xs @ [y])"
proof -
  have "(take a mem @ xs @ z # drop (Suc (a + length xs)) mem)[a + length xs := y] =
        take a mem @ (xs @ z # drop (Suc (a + length xs)) mem)[length xs := y]"
    using assms by (simp add: list_update_append min_absorb2)
  then show ?thesis
    by (simp add: overwrite_def list_update_append)
qed

lemma iv_text_hexes: "iv_text = hexes IV @ [0x0A]"
  by (simp add: iv_text_def hexes_def)

lemma length_IV [simp]: "length IV = 16"
  by (simp add: IV_def)

lemma length_iv_text [simp]: "length iv_text = 33"
  by (simp add: iv_text_hexes)

lemma WriteAes128CbcIvToBuffer_eq:
  "WriteAes128CbcIvToBuffer mem buffer IV =
     (if buffer + 33 \<le> length mem then Some (overwrite mem buffer iv_text, 0) else None)"
proof -
  have ne: "IV \<noteq> []" by (simp add: IV_def)
  show ?thesis
  proof (cases "buffer + 33 \<le> length mem")
    case True
    have "(overwrite mem buffer (hexes IV @ [0]))[buffer + length (hexes IV) := 0x0A] =
          overwrite mem buffer (hexes IV @ [0x0A])"
      using True by (intro overwrite_last) simp
    then show ?thesis
      using True
      by (simp add: WriteAes128CbcIvToBuffer_def write_hex_eq [OF ne] store8_def iv_text_hexes)
  next
    case False
    then show ?thesis
      by (simp add: WriteAes128CbcIvToBuffer_def write_hex_eq [OF ne])
  qed
qed

lemma read_hex_iv: "read_hex other 0 (take 32 iv_text) = IV"
  by (simp add: iv_text_def IV_def hex_digit_def hex_value_def sscanf_2hhx_def)

section \<open>Creating a factory image\<close>

lemma length_fresh_buffer [simp]: "length (fresh_buffer env n) = n"
  by (simp add: fresh_buffer_def)

lemma length_salt [simp]: "length salt = 8"
  by (simp add: salt_def)

lemma length_Salted [simp]: "length (bytes_of ''Salted__'') = 8"
  by (simp add: bytes_of_def)

lemmas win_overwrite = win_overwrite_same win_overwrite_below win_overwrite_above

lemma unsigned_add_small: "i + n < 2 ^ 32 \<Longrightarrow> unsigned_add (int i) n = i + n"
proof -
  assume h: "i + n < 2 ^ 32"
  have "(int i + int n) mod 2 ^ 32 = int (i + n)"
    using h by (simp add: zmod_int [symmetric] del: of_nat_add)
  then show ?thesis
    by (simp add: unsigned_add_def)
qed

lemma sint_le_uint: "sint (w :: 'a::len word) \<le> uint w"
proof -
  have "- (2 ^ (LENGTH('a) - Suc 0)) \<le> (0::int)" by simp
  also have "\<dots> \<le> uint w" by simp
  finally show ?thesis
    by (simp add: sint_uint signed_take_bit_int_less_eq_self_iff)
qed

lemma size_t_to_int_le: "0 \<le> size_t_to_int x \<Longrightarrow> nat (size_t_to_int x) \<le> x"
proof -
  assume h: "0 \<le> size_t_to_int x"
  have "sint (word_of_nat x :: 32 word) \<le> uint (word_of_nat x :: 32 word)"
    by (rule sint_le_uint)
  also have "\<dots> = int (x mod 2 ^ 32)"
    by (simp add: unsigned_of_nat take_bit_eq_mod)
  also have "\<dots> \<le> int x"
    by simp
  finally show ?thesis
    using h by (simp add: size_t_to_int_def)
qed

lemma size_t_to_int_small: "x < 2 ^ 31 \<Longrightarrow> size_t_to_int x = int x"
  by (simp add: size_t_to_int_def signed_of_nat signed_take_bit_int_eq_self)


lemmas build_consts = M32_FIRMWARE_HEADER_LENGTH_def M32_FIRMWARE_SIGNATURE_LENGTH_def
  M32_FIRMWARE_INITIALIZATION_VECTOR_LENGTH_def M32_FIRMWARE_SALT_INFO_LENGTH_def
  M32_FIRMWARE_DECRYPTION_INFO_LENGTH_def AES_BLOCK_SIZE_def

lemma inner_window:
  assumes sw: "signing_works c device" and m0: "length m0 = length file + 625"
    and k: "k \<le> length file + 272"
  shows "win (overwrite (overwrite (overwrite (overwrite (overwrite m0 97 file) 81 (verification_header (length file)))
                   (97 + length file) (signature_of c device file)) 65 (bytes_of ''Salted__'')) 73 salt) 81 k =
           take k (verification_header (length file) @ file @ signature_of c device file)"
proof -
  have "length file + 272 = 16 + (length file + 256)" by simp
  then have "win (overwrite (overwrite (overwrite (overwrite (overwrite m0 97 file) 81 (verification_header (length file)))
                   (97 + length file) (signature_of c device file)) 65 (bytes_of ''Salted__'')) 73 salt) 81 (length file + 272) =
           verification_header (length file) @ file @ signature_of c device file"
    using sw m0
    by (simp only: win_add) (simp add: win_overwrite)
  then show ?thesis
    using win_take [OF k] by simp
qed

lemma Encrypt_eq:
  assumes "saltBuffer + 16 \<le> length mem"
  shows "EncryptAes128Cbc c mem plainData n outputBuffer saltBuffer keyString ivHex =
    (let mem2 = overwrite (overwrite mem saltBuffer (bytes_of ''Salted__'')) (saltBuffer + 8) salt in
     if size_t_to_int n < 0 \<or> length mem < plainData + nat (size_t_to_int n) then None
     else case aes_128_cbc_encrypt c (fst (evp_bytes_to_key c salt keyString)) ivHex
                 (win mem2 plainData (nat (size_t_to_int n))) of
            None \<Rightarrow> Some (mem2, 1, 0)
          | Some encrypted \<Rightarrow>
              if INT_MAX < length encrypted \<or> length mem < outputBuffer + length encrypted then None
              else Some (overwrite mem2 outputBuffer encrypted, 0, int (length encrypted)))"
  using assms
  by (auto simp add: EncryptAes128Cbc_def store_bytes_eq read_bytes_eq split_def Let_def
        split: option.splits)


lemma nat_size_t_to_int_le: "\<not> size_t_to_int x < 0 \<Longrightarrow> nat (size_t_to_int x) \<le> x"
  by (rule size_t_to_int_le) simp

lemma CreateFactoryImageFromRecoveryImage_eq:
  assumes sw: "signing_works c device"
  shows "CreateFactoryImageFromRecoveryImage c env outputFile device file =
    (if \<not> malloc_ok env (length file + 625) then Some (failed UnableToAllocate)
     else if \<not> fread_ok env then Some (failed UnableToRead)
     else if no_return_value env 0 \<noteq> 0 then Some (failed UnableToCreateSignature)
     else if WriteDebugBufferToFile env ''Sig1.bin'' \<noteq> 0 then Some (failed ErrorDuringWritingDebug)
     else if WriteDebugBufferToFile env ''FW_and_Sig1.bin'' \<noteq> 0
       then Some (failed ErrorDuringWritingDebug)
     else if size_t_to_int (length file + 272) < 0 then None
     else
       (case aes_128_cbc_encrypt c (device_key c device) IV (inner_plain c device file) of
          None \<Rightarrow> Some (failed UnableToEncrypt)
        | Some encrypted \<Rightarrow>
            if INT_MAX < length encrypted \<or> length file + 544 < length encrypted then None
            else if WriteDebugBufferToFile env ''FWenc.bin'' \<noteq> 0
              then Some (failed ErrorDuringWritingDebug)
            else if WriteDebugBufferToFile env ''IV.bin'' \<noteq> 0
              then Some (failed ErrorDuringWritingDebug)
            else if length file + 288 < length encrypted then None
            else if no_return_value env 1 \<noteq> 0 then Some (failed UnableToCreateSignature)
            else if \<not> fwrite_ok env outputFile then Some (failed ErrorDuringWriting)
            else Some (succeeded (factory_image c device file))))"
proof -
  define n where "n = length file"
  define m0 where "m0 = fresh_buffer env (n + 625)"
  define m1 where "m1 = overwrite m0 97 file"
  define m2 where "m2 = overwrite m1 81 (verification_header n)"
  define m3 where "m3 = overwrite m2 (97 + n) (signature_of c device file)"
  define mem2 where "mem2 = overwrite (overwrite m3 65 (bytes_of ''Salted__'')) 73 salt"
  define m4 where "m4 = (\<lambda>e. overwrite mem2 81 e)"
  define m5 where "m5 = (\<lambda>e. overwrite (m4 e) 16 (encryption_header (length e + 16)))"
  define m6 where "m6 = (\<lambda>e. overwrite (m5 e) 32 iv_text)"
  define m7 where "m7 = (\<lambda>e. overwrite (m6 e) 0 (verification_header (length e + 65)))"
  define block where "block = (\<lambda>e. encryption_header (length e + 16) @ iv_text
                                 @ bytes_of ''Salted__'' @ salt @ e)"
  define m8 where "m8 = (\<lambda>e. overwrite (m7 e) (length e + 81) (signature_of c device (block e)))"
  have l0: "length m0 = n + 625" by (simp add: m0_def)
  have l1: "length m1 = n + 625" by (simp add: m1_def l0 n_def)
  have l2: "length m2 = n + 625" by (simp add: m2_def l1)
  have l3: "length m3 = n + 625" using sw by (simp add: m3_def l2)
  have lm: "length mem2 = n + 625" by (simp add: mem2_def l3)
  have s1: "store_bytes m0 97 file = Some m1"
    by (simp add: store_bytes_eq l0 n_def m1_def)
  have s2: "CreateSha512VerificatioinHeader m1 81 n = Some (m2, 0)"
    by (simp add: CreateSha512VerificatioinHeader_eq l1 m2_def)
  have "win m2 97 n = file"
    by (simp add: m2_def m1_def win_overwrite l0 l1 n_def)
  then have s3: "CreateSha512VerificatioinSignature c r m2 97 n device = Some (m3, 0, r)" for r
    by (simp add: CreateSha512VerificatioinSignature_eq [OF sw] l2 m3_def)
  have inner: "win mem2 81 (nat (size_t_to_int (n + 272))) = inner_plain c device file"
    if "\<not> size_t_to_int (n + 272) < 0"
    using inner_window [OF sw, of m0 "file" "nat (size_t_to_int (n + 272))"]
      nat_size_t_to_int_le [OF that] l0
    by (simp add: mem2_def m3_def m2_def m1_def n_def inner_plain_def)
  have s4: "EncryptAes128Cbc c m3 81 (n + 272) 81 65 (FirmwareKey device) IV =
    (if size_t_to_int (n + 272) < 0 then None
     else case aes_128_cbc_encrypt c (device_key c device) IV (inner_plain c device file) of
            None \<Rightarrow> Some (mem2, 1, 0)
          | Some e \<Rightarrow>
              if INT_MAX < length e \<or> n + 544 < length e then None
              else Some (m4 e, 0, int (length e)))"
  proof (cases "size_t_to_int (n + 272) < 0")
    case True
    then show ?thesis by (simp add: Encrypt_eq l3)
  next
    case False
    have "81 + nat (size_t_to_int (n + 272)) \<le> n + 625"
      using nat_size_t_to_int_le [OF False] by simp
    then show ?thesis
      using False inner [OF False]
      by (auto simp add: Encrypt_eq l3 Let_def mem2_def [symmetric] device_key_def m4_def
            split: option.splits)
  qed
  have tail: "length (m4 e) = n + 625 \<and> length (m5 e) = n + 625 \<and> length (m6 e) = n + 625
      \<and> length (m7 e) = n + 625
      \<and> CreateAes128CbcEncryptionHeader (m4 e) 16 (length e + 16) = Some (m5 e, 0)
      \<and> WriteAes128CbcIvToBuffer (m5 e) 32 IV = Some (m6 e, 0)
      \<and> CreateSha512VerificatioinHeader (m6 e) 0 (length e + 65) = Some (m7 e, 0)
      \<and> win (m7 e) 16 (length e + 65) = block e"
    if e: "length e \<le> n + 544" for e
  proof -
    have l4: "length (m4 e) = n + 625" using e by (simp add: m4_def lm)
    have l5: "length (m5 e) = n + 625" by (simp add: m5_def l4)
    have l6: "length (m6 e) = n + 625" by (simp add: m6_def l5)
    have l7: "length (m7 e) = n + 625" by (simp add: m7_def l6)
    have "length e + 65 = 16 + (33 + (8 + (8 + length e)))" by simp
    then have "win (m7 e) 16 (length e + 65) = block e"
      using e l3
      by (simp only: win_add)
         (simp add: m7_def m6_def m5_def m4_def mem2_def win_overwrite block_def)
    then show ?thesis
      by (simp add: l4 l5 l6 l7 CreateAes128CbcEncryptionHeader_eq WriteAes128CbcIvToBuffer_eq
            CreateSha512VerificatioinHeader_eq m5_def m6_def m7_def)
  qed
  have s8: "CreateSha512VerificatioinSignature c r (m7 e) 16 (length e + 65) device =
      (if n + 288 < length e then None else Some (m8 e, 0, r))"
    if e: "length e \<le> n + 544" for e r
    using tail [OF e]
    by (simp add: CreateSha512VerificatioinSignature_eq [OF sw] m8_def add.commute)
  have s9: "read_bytes (m8 e) 0 (length e + 337) =
      Some (verification_header (length e + 65) @ block e @ signature_of c device (block e))"
    if e: "length e \<le> n + 288" for e
  proof -
    have e': "length e \<le> n + 544" using e by simp
    have l8: "length (m8 e) = n + 625"
      using e sw tail [OF e'] by (simp add: m8_def)
    have l7: "length (m7 e) = n + 625" and w: "win (m7 e) 16 (length e + 65) = block e"
      using tail [OF e'] by simp_all
    have w1: "win (m8 e) 0 16 = verification_header (length e + 65)"
      using e sw l7 tail [OF e'] by (simp add: m8_def win_overwrite) (simp add: m7_def win_overwrite)
    have w2: "win (m8 e) 16 (length e + 65) = block e"
      using e sw l7 w by (simp add: m8_def win_overwrite)
    have w3: "win (m8 e) (length e + 81) 256 = signature_of c device (block e)"
      using e sw l7 by (simp add: m8_def win_overwrite)
    have "win (m8 e) 0 (16 + ((length e + 65) + 256)) =
      win (m8 e) 0 16 @ win (m8 e) 16 (length e + 65) @ win (m8 e) (16 + (length e + 65)) 256"
      by (simp only: win_add add_0)
    also have "16 + ((length e + 65) + 256) = length e + 337" by simp
    also have "16 + (length e + 65) = length e + 81" by simp
    finally have "win (m8 e) 0 (length e + 337) =
      verification_header (length e + 65) @ block e @ signature_of c device (block e)"
      by (simp only: w1 w2 w3)
    then show ?thesis
      using e by (simp add: read_bytes_eq l8)
  qed
  have ua: "unsigned_add (int (length e)) j = length e + j"
    if "\<not> INT_MAX < length e" "j \<le> 337" for e :: "byte list" and j
    using that by (intro unsigned_add_small) (simp add: INT_MAX_eq)
  have fi: "factory_image c device file =
      verification_header (length e + 65) @ block e @ signature_of c device (block e)"
    if "aes_128_cbc_encrypt c (device_key c device) IV (inner_plain c device file) = Some e" for e
    using that by (simp add: factory_image_def outer_block_def inner_cipher_def block_def)
  note defs = CreateFactoryImageFromRecoveryImage_def Let_def build_consts n_def m0_def add.commute
  show ?thesis
  proof (cases "size_t_to_int (n + 272) < 0")
    case True
    then show ?thesis
      using s1 s2 s3 s4 by (simp add: defs)
  next
    case False
    show ?thesis
    proof (cases "aes_128_cbc_encrypt c (device_key c device) IV (inner_plain c device file)")
      case None
      then show ?thesis
        using False s1 s2 s3 s4 by (simp add: defs)
    next
      case (Some e)
      show ?thesis
      proof (cases "INT_MAX < length e \<or> n + 544 < length e")
        case True
        then show ?thesis
          using Some False s1 s2 s3 s4 by (simp add: defs)
      next
        case small: False
        then have e: "length e \<le> n + 544" and i: "\<not> INT_MAX < length e" by simp_all
        show ?thesis
        proof (cases "n + 288 < length e")
          case True
          then show ?thesis
            using Some False small s1 s2 s3 s4 tail [OF e] s8 [OF e] ua [OF i]
            by (simp add: defs)
        next
          case False
          then have e': "length e \<le> n + 288" by simp
          show ?thesis
            using Some \<open>\<not> size_t_to_int (n + 272) < 0\<close> small s1 s2 s3 s4 tail [OF e] s8 [OF e]
              ua [OF i] s9 [OF e'] fi [OF Some] False
            by (simp add: defs)
        qed
      qed
    qed
  qed
qed

section \<open>Decrypting a factory image\<close>

lemma VerifySha512Signture_signed:
  assumes sw: "signing_works c device" and ok: "crypto_ok c device"
    and fits: "buffer + k + 256 \<le> length mem"
    and sig: "win mem (buffer + k) 256 = signature_of c device (win mem buffer k)"
  shows "VerifySha512Signture c mem buffer k device = Some 0"
proof -
  from signature_of_works [OF sw, of "win mem buffer k"] obtain digest priv where
    d: "sha512 c (win mem buffer k) = Some digest"
    and p: "pem_read_private_key c (PrivateKey device) (Passphrase device) = Some priv"
    and s: "evp_sign c priv digest = Some (signature_of c device (win mem buffer k))"
    by auto
  from ok p s obtain pub where
    "pem_read_public_key c (PublicKey device) = Some pub"
    "evp_digest_verify c pub digest (signature_of c device (win mem buffer k)) \<noteq> 0"
    unfolding crypto_ok_def by blast
  then show ?thesis
    using fits d sig
    by (simp add: VerifySha512Signture_def read_bytes_eq M32_FIRMWARE_SIGNATURE_LENGTH_def)
qed

lemma length_inner_plain:
  assumes "signing_works c device" "length file + 272 < 2 ^ 31"
  shows "inner_plain c device file =
           verification_header (length file) @ file @ signature_of c device file"
  using assms by (simp add: inner_plain_def size_t_to_int_small)

lemma DecryptAes128Cbc_eq:
  assumes ok: "crypto_ok c device"
    and enc: "aes_128_cbc_encrypt c (device_key c device) ivHex plain = Some e"
    and fits: "a + 16 + length e \<le> length mem"
    and s: "win mem (a + 8) 8 = salt" and w: "win mem (a + 16) (length e) = e"
    and small: "length e + 16 < 2 ^ 31"
    and out: "length outputBuffer = length e + 16"
  shows "DecryptAes128Cbc c mem a (length e + 16) outputBuffer (FirmwareKey device) ivHex =
           Some (overwrite outputBuffer 0 plain, 0)"
proof -
  from ok enc have d: "aes_128_cbc_decrypt c (device_key c device) ivHex e = Some plain"
    and l: "length e = 16 * (length plain div 16 + 1)"
    unfolding crypto_ok_def by blast+
  have lp: "length plain \<le> length e + 16"
    using l by presburger
  have sub: "size_sub (length e + 16) 16 = length e"
    using small by (simp add: size_sub_eq)
  have si: "size_t_to_int (length e) = int (length e)"
    using small by (simp add: size_t_to_int_small)
  show ?thesis
    using fits s w d lp out
    by (simp add: DecryptAes128Cbc_def read_bytes_eq sub si Let_def split_def
          device_key_def store_bytes_eq)
qed


lemma DecryptFactoryImage_factory_image:
  assumes sw: "signing_works c device" and ok: "crypto_ok c device"
    and enc: "aes_128_cbc_encrypt c (device_key c device) IV (inner_plain c device file) = Some e"
    and n: "length file + 272 < 2 ^ 31" and small: "length e + 65 < 2 ^ 31"
  shows "DecryptFactoryImage c env outputFile device (factory_image c device file) =
    (if \<not> malloc_ok env (length e + 337) then Some (failed UnableToAllocate)
     else if \<not> fread_ok env then Some (failed UnableToRead)
     else if \<not> malloc_ok env (length e + 16) then Some (failed UnableToAllocate)
     else if \<not> fwrite_ok env outputFile then Some (failed ErrorDuringWriting)
     else Some (succeeded file))"
proof -
  define F where "F = factory_image c device file"
  define block where "block = encryption_header (length e + 16) @ iv_text
                                 @ bytes_of ''Salted__'' @ salt @ e"
  define plain where "plain = verification_header (length file) @ file @ signature_of c device file"
  define D where "D = overwrite (fresh_buffer env (length e + 16)) 0 plain"
  have F: "F = verification_header (length e + 65) @ block @ signature_of c device block"
    using enc by (simp add: F_def factory_image_def outer_block_def inner_cipher_def block_def)
  have lb: "length block = length e + 65"
    by (simp add: block_def)
  have lF: "length F = length e + 337"
    using sw by (simp add: F lb)
  have ip: "inner_plain c device file = plain"
    using length_inner_plain [OF sw n] by (simp add: plain_def)
  from ok enc have le: "length e = 16 * (length (inner_plain c device file) div 16 + 1)"
    unfolding crypto_ok_def by blast
  have lp: "length plain = length file + 272"
    using sw by (simp add: plain_def)
  have lpe: "length plain \<le> length e + 16"
    using le unfolding ip by presburger
  have lD: "length D = length e + 16"
    using lpe by (simp add: D_def)
  have wF0: "win F 0 16 = verification_header (length e + 65)"
    by (simp add: F win_def)
  have wF1: "win F 16 (length e + 65) = block"
    by (simp add: F win_def lb)
  have wF2: "win F (16 + (length e + 65)) 256 = signature_of c device block"
    using sw by (simp add: F win_def lb)
  have wF3: "win F 16 16 = encryption_header (length e + 16)"
    by (simp add: F win_def block_def)
  have wF4: "win F 32 32 = take 32 iv_text"
    by (simp add: F win_def block_def)
  have wF5: "win F (65 + 8) 8 = salt"
    by (simp add: F win_def block_def)
  have wF6: "win F (65 + 16) (length e) = e"
    by (simp add: F win_def block_def)
  have wD0: "win D 0 16 = verification_header (length file)"
    using lpe lp by (simp add: D_def win_def overwrite_def plain_def)
  have wD1: "win D 16 (length file) = file"
    using lpe lp by (simp add: D_def win_def overwrite_def plain_def)
  have wD2: "win D (16 + length file) 256 = signature_of c device file"
    using lpe lp sw by (simp add: D_def win_def overwrite_def plain_def)
  have d1: "GetDataLengthFromVerificationHeader F 0 0 = Some (0, length e + 65)"
    using GetDataLengthFromVerificationHeader_eq [of 0 F "length e + 65" 0] wF0 lF small
    by (simp add: decode_length)
  have v1: "VerifySha512Signture c F 16 (length e + 65) device = Some 0"
    using wF1 wF2 lF by (intro VerifySha512Signture_signed [OF sw ok]) simp_all
  have d2: "GetDataLengthFromEncryptionHeader F 16 (length e + 65) = Some (0, length e + 16)"
    using GetDataLengthFromEncryptionHeader_eq [of 16 F "length e + 16" "length e + 65"] wF3 lF small
    by (simp add: decode_length)
  have iv: "ConvertAsciiIvToHexArray env F 32 = Some (IV, 0)"
    using wF4 lF by (simp add: ConvertAsciiIvToHexArray_def read_bytes_eq AES_BLOCK_SIZE_def read_hex_iv)
  have dec: "DecryptAes128Cbc c F 65 (length e + 16) (fresh_buffer env (length e + 16))
               (FirmwareKey device) IV = Some (D, 0)"
    unfolding D_def ip [symmetric]
    using wF5 wF6 lF small
    by (intro DecryptAes128Cbc_eq [OF ok enc]) simp_all
  have d3: "GetDataLengthFromVerificationHeader D 0 (length e + 16) = Some (0, length file)"
    using GetDataLengthFromVerificationHeader_eq [of 0 D "length file" "length e + 16"] wD0 lD n
    by (simp add: decode_length)
  have v2: "VerifySha512Signture c D 16 (length file) device = Some 0"
    using wD1 wD2 lD lp lpe by (intro VerifySha512Signture_signed [OF sw ok]) simp_all
  have out: "read_bytes D 16 (length file) = Some file"
    using wD1 lD lp lpe by (simp add: read_bytes_eq)
  show ?thesis
    using d1 v1 d2 iv dec d3 v2 out lF
    by (simp add: DecryptFactoryImage_def Let_def build_consts F_def [symmetric])
qed

section \<open>The toy library behaves\<close>

lemma length_pkcs7_pad: "length (pkcs7_pad plain) = 16 * (length plain div 16 + 1)"
proof -
  have "length plain + (16 - length plain mod 16) = 16 * (length plain div 16 + 1)"
    by presburger
  then show ?thesis by (simp add: pkcs7_pad_def)
qed

lemma pkcs7_unpad_pad: "pkcs7_unpad (pkcs7_pad plain) = Some plain"
proof -
  define k where "k = 16 - length plain mod 16"
  have k: "1 \<le> k" "k \<le> 16" by (simp_all add: k_def)
  have p: "pkcs7_pad plain = plain @ replicate k (of_nat k)"
    by (simp add: pkcs7_pad_def k_def)
  have u: "unat (of_nat k :: byte) = k"
    using k by (simp add: unat_of_nat)
  have l: "last (pkcs7_pad plain) = of_nat k"
    using k by (simp add: p)
  have m: "length (pkcs7_pad plain) mod 16 = 0"
    by (simp add: length_pkcs7_pad)
  have ne: "pkcs7_pad plain \<noteq> []"
    using k by (simp add: p)
  show ?thesis
    unfolding pkcs7_unpad_def Let_def l u
    using k m ne by (simp add: p)
qed

lemma xor_twice: "map ((\<lambda>b. b XOR m) \<circ> (\<lambda>b. b XOR m)) xs = (xs :: byte list)"
  by (induction xs) (simp_all add: xor.assoc)

lemma in_table:
  assumes "device \<in> set M32FirmwareUtilDeviceInfos"
  shows "is_private (PrivateKey device)" "\<not> is_private (PublicKey device)"
    "key_tag (PublicKey device) = key_tag (PrivateKey device)" "Passphrase device = ''wrpd''"
  using assms
  by (auto simp add: M32FirmwareUtilDeviceInfos_def M30_def M32_def R32_def M60_def)

lemma length_toy_sign [simp]: "length (toy_sign k digest) = 256"
  by (simp add: toy_sign_def)

lemma signing_works_toy:
  "device \<in> set M32FirmwareUtilDeviceInfos \<Longrightarrow> signing_works toy device"
  by (simp add: signing_works_def toy_def in_table M32_FIRMWARE_SIGNATURE_LENGTH_def)

lemma crypto_ok_toy:
  "device \<in> set M32FirmwareUtilDeviceInfos \<Longrightarrow> crypto_ok toy device"
  by (auto simp add: crypto_ok_def toy_def in_table toy_sign_def xor_twice pkcs7_unpad_pad
        length_pkcs7_pad)

section \<open>What a run writes\<close>

lemma build_output:
  assumes sw: "signing_works c device"
    and r: "CreateFactoryImageFromRecoveryImage c env outputFile device file = Some r"
    and w: "outfile r = Some factory"
  shows "factory = factory_image c device file"
    and "\<exists>e. aes_128_cbc_encrypt c (device_key c device) IV (inner_plain c device file) = Some e
             \<and> length e \<le> length file + 288"
    and "fwrite_ok env outputFile"
  using r w unfolding CreateFactoryImageFromRecoveryImage_eq [OF sw]
  by (auto simp add: failed_def succeeded_def split: if_splits option.splits)

lemma build_succeeds:
  assumes sw: "signing_works c device" and ok: "crypto_ok c device"
    and enc: "aes_128_cbc_encrypt c (device_key c device) IV (inner_plain c device file) = Some e"
    and n: "length file + 288 < 2 ^ 31"
    and env: "malloc_ok env (length file + 625)" "fread_ok env"
      "\<And>name. WriteDebugBufferToFile env name = 0"
      "no_return_value env 0 = 0" "no_return_value env 1 = 0" "fwrite_ok env outputFile"
  shows "CreateFactoryImageFromRecoveryImage c env outputFile device file =
           Some (succeeded (factory_image c device file))"
proof -
  have n': "length file + 272 < 2 ^ 31" using n by simp
  from ok enc have le: "length e = 16 * (length (inner_plain c device file) div 16 + 1)"
    unfolding crypto_ok_def by blast
  have lp: "length (inner_plain c device file) = length file + 272"
    using sw by (simp add: length_inner_plain [OF sw n'])
  have b: "length e \<le> length file + 288"
    unfolding le lp by presburger
  then have i: "\<not> INT_MAX < length e"
    using n by (simp add: INT_MAX_eq)
  have s: "\<not> size_t_to_int (length file + 272) < 0"
    using n' by (simp add: size_t_to_int_small)
  show ?thesis
    using env enc b i s
    by (simp add: CreateFactoryImageFromRecoveryImage_eq [OF sw])
qed

lemma inner_block_of_factory_image:
  assumes sw: "signing_works c device" and ok: "crypto_ok c device"
    and enc: "aes_128_cbc_encrypt c (device_key c device) IV (inner_plain c device file) = Some e"
  shows "length (factory_image c device file) = length e + 337"
    and "aes_128_cbc_decrypt c (device_key c device) IV (win (factory_image c device file) 81 (length e))
           = Some (inner_plain c device file)"
proof -
  from ok enc have d: "aes_128_cbc_decrypt c (device_key c device) IV e =
      Some (inner_plain c device file)"
    unfolding crypto_ok_def by blast
  have "win (factory_image c device file) 81 (length e) = e"
    using enc by (simp add: factory_image_def outer_block_def inner_cipher_def win_def)
  then show "aes_128_cbc_decrypt c (device_key c device) IV (win (factory_image c device file) 81 (length e))
           = Some (inner_plain c device file)"
    using d by simp
  show "length (factory_image c device file) = length e + 337"
    using enc sw by (simp add: factory_image_def outer_block_def inner_cipher_def)
qed

lemma encrypt_toy:
  "aes_128_cbc_encrypt toy k iv plain = Some (map (\<lambda>b. b XOR toy_mask k iv) (pkcs7_pad plain))"
  by (simp add: toy_def)

section \<open>A block length of \<open>2 ^ 31\<close> or more\<close>

lemma sint_negative:
  assumes a: "2147483648 \<le> int m" "int m < 4294967296"
  shows "sint (word_of_nat m :: 32 word) = int m - 4294967296"
proof -
  have "signed_take_bit 31 (int m) = take_bit 32 (int m + 2 ^ 31) - 2 ^ 31"
    by (simp add: signed_take_bit_eq_take_bit_shift)
  also have "take_bit 32 (int m + 2 ^ 31) = (int m + 2147483648) mod 4294967296"
    by (simp add: take_bit_eq_mod)
  also have "\<dots> = (int m + 2147483648 - 4294967296) mod 4294967296"
    by (simp only: minus_mod_self2)
  also have "\<dots> = int m + 2147483648 - 4294967296"
    using a by (intro mod_pos_pos_trivial) simp_all
  finally show ?thesis
    by (simp add: signed_of_nat)
qed

lemma unat_sign_extended:
  assumes a: "2147483648 \<le> int m" "int m < 4294967296"
  shows "unat (word_of_int (int m - 4294967296) :: 64 word) = m + 18446744069414584320"
proof -
  have "uint (word_of_int (int m - 4294967296) :: 64 word) =
        (int m - 4294967296) mod 18446744073709551616"
    unfolding uint_word_of_int take_bit_eq_mod by simp
  also have "(int m - 4294967296) mod 18446744073709551616 =
             (int m - 4294967296 + 18446744073709551616) mod 18446744073709551616"
    by (simp only: mod_add_self2)
  also have "\<dots> = int m - 4294967296 + 18446744073709551616"
    using a by (intro mod_pos_pos_trivial) simp_all
  finally have "uint (word_of_int (int m - 4294967296) :: 64 word) =
      int (m + 18446744069414584320)"
    using a by simp
  then show ?thesis
    by (simp only: unat_eq_nat_uint nat_int)
qed

lemma int_to_size_t_negative:
  assumes "2147483648 \<le> m" "m < 4294967296"
  shows "int_to_size_t (of_nat m) = m + 18446744069414584320"
proof -
  have a: "2147483648 \<le> int m" "int m < 4294967296"
    using assms by simp_all
  show ?thesis
    unfolding int_to_size_t_def scast_eq sint_negative [OF a] by (rule unat_sign_extended [OF a])
qed


lemma first_length_of_factory_image:
  assumes sw: "signing_works c device"
    and enc: "aes_128_cbc_encrypt c (device_key c device) IV (inner_plain c device file) = Some e"
    and big: "2147483648 \<le> length e + 65" "length e + 65 < 4294967296"
  shows "GetDataLengthFromVerificationHeader (factory_image c device file) 0 0 =
      Some (0, length e + 65 + 18446744069414584320)"
proof -
  define F where "F = factory_image c device file"
  define block where "block = encryption_header (length e + 16) @ iv_text
                                 @ bytes_of ''Salted__'' @ salt @ e"
  have F: "F = verification_header (length e + 65) @ block @ signature_of c device block"
    using enc by (simp add: F_def factory_image_def outer_block_def inner_cipher_def block_def)
  have lF: "length F = length e + 337"
    using sw by (simp add: F block_def)
  have wF0: "win F 0 16 = verification_header (length e + 65)"
    by (simp add: F win_def)
  show ?thesis
    using GetDataLengthFromVerificationHeader_eq [of 0 F "length e + 65" 0] wF0 lF
    unfolding le32_of_size int_to_size_t_negative [OF big] F_def by simp
qed

lemma DecryptFactoryImage_overflow:
  assumes sw: "signing_works c device"
    and enc: "aes_128_cbc_encrypt c (device_key c device) IV (inner_plain c device file) = Some e"
    and big: "2147483648 \<le> length e + 65" "length e + 65 < 4294967296"
    and env: "malloc_ok env (length e + 337)" "fread_ok env"
  shows "DecryptFactoryImage c env outputFile device (factory_image c device file) = None"
proof -
  define F where "F = factory_image c device file"
  have lF: "length F = length e + 337"
    using sw enc by (simp add: F_def factory_image_def outer_block_def inner_cipher_def)
  have d1: "GetDataLengthFromVerificationHeader F 0 0 =
      Some (0, length e + 65 + 18446744069414584320)"
    unfolding F_def by (rule first_length_of_factory_image [OF sw enc big])
  have v1: "VerifySha512Signture c F 16 (length e + 65 + 18446744069414584320) device = None"
    by (simp add: VerifySha512Signture_def read_bytes_eq lF)
  show ?thesis
    using d1 v1 lF env
    by (simp add: DecryptFactoryImage_def Let_def build_consts F_def [symmetric])
qed

section \<open>Signatures of the toy library\<close>

lemma signature_of_toy:
  "signature_of toy M32 data = toy_sign M32PrivateKey (toy_sha512 data)"
  by (simp add: signature_of_def toy_def M32_def)

lemma hd_toy_sign: "data \<noteq> [] \<Longrightarrow> hd (toy_sign k (toy_sha512 data)) = hd data"
  by (cases data) (simp_all add: toy_sign_def toy_sha512_def)


section \<open>Updating the headers twice\<close>

lemma store16_id:
  "mem ! a = ucast (c AND 0xFF) \<Longrightarrow> mem ! (a + 1) = ucast (drop_bit 8 c AND 0xFF) \<Longrightarrow>
   store16 mem a c = mem"
  unfolding store16_def by (metis list_update_id)

lemma fix_header_fixed:
  assumes a80: "a + 80 \<le> length buf" and len: "length b' = length buf"
    and agree: "\<And>j. a \<le> j \<Longrightarrow> j < a + 80 + round_up2 plen \<Longrightarrow> j < length buf \<Longrightarrow>
                  b' ! j = fix_header buf a plen ! j"
  shows "fix_header b' a plen = b'"
proof -
  define b1 where "b1 = buf[a + 44 := byte_of_size plen 0, a + 45 := byte_of_size plen 8,
                   a + 46 := byte_of_size plen 16, a + 47 := byte_of_size plen 24]"
  define s where "s = spec_Sum16Carry (take (round_up2 plen) (drop (a + 80) b1)) False"
  define b2 where "b2 = store16 b1 (a + 14) s"
  define h where "h = spec_Sum16Carry (take 78 (drop a b2)) True"
  define b3 where "b3 = store16 b2 (a + 78) h"
  have f: "fix_header buf a plen = b3"
    by (simp add: fix_header_def Let_def b3_def h_def b2_def s_def b1_def)
  have l: "length b1 = length buf" "length b2 = length buf" "length b3 = length buf"
    by (simp_all add: b3_def b2_def b1_def)
  have n: "b3 ! (a + 44) = byte_of_size plen 0" "b3 ! (a + 45) = byte_of_size plen 8"
    "b3 ! (a + 46) = byte_of_size plen 16" "b3 ! (a + 47) = byte_of_size plen 24"
    "b3 ! (a + 14) = ucast (s AND 0xFF)" "b3 ! (a + 15) = ucast (drop_bit 8 s AND 0xFF)"
    "b3 ! (a + 78) = ucast (h AND 0xFF)" "b3 ! (a + 79) = ucast (drop_bit 8 h AND 0xFF)"
    using a80 l by (simp_all add: b3_def b2_def b1_def store16_def nth_list_update)
  have n': "b' ! (a + 44) = byte_of_size plen 0" "b' ! (a + 45) = byte_of_size plen 8"
    "b' ! (a + 46) = byte_of_size plen 16" "b' ! (a + 47) = byte_of_size plen 24"
    "b' ! (a + 14) = ucast (s AND 0xFF)" "b' ! (a + 15) = ucast (drop_bit 8 s AND 0xFF)"
    "b' ! (a + 78) = ucast (h AND 0xFF)" "b' ! (a + 79) = ucast (drop_bit 8 h AND 0xFF)"
    using a80 agree [of "a + 44"] agree [of "a + 45"] agree [of "a + 46"] agree [of "a + 47"]
      agree [of "a + 14"] agree [of "a + 15"] agree [of "a + 78"] agree [of "a + 79"]
    by (simp_all add: f n)
  have 1: "b'[a + 44 := byte_of_size plen 0, a + 45 := byte_of_size plen 8,
              a + 46 := byte_of_size plen 16, a + 47 := byte_of_size plen 24] = b'"
    using n' by (metis list_update_id)
  have "take (round_up2 plen) (drop (a + 80) b') = take (round_up2 plen) (drop (a + 80) b3)"
    using agree by (intro region_eqI) (simp_all add: len l f)
  also have "\<dots> = take (round_up2 plen) (drop (a + 80) b1)"
    by (rule region_eqI) (simp_all add: l b3_def b2_def store16_def)
  finally have s': "spec_Sum16Carry (take (round_up2 plen) (drop (a + 80) b')) False = s"
    by (simp add: s_def)
  have e: "a + 14 + 1 = a + 15" "a + 78 + 1 = a + 79"
    by simp_all
  have 2: "store16 b' (a + 14) s = b'"
  proof (rule store16_id)
    show "b' ! (a + 14) = ucast (s AND 0xFF)" by (rule n'(5))
    show "b' ! (a + 14 + 1) = ucast (drop_bit 8 s AND 0xFF)" unfolding e by (rule n'(6))
  qed
  have "take 78 (drop a b') = take 78 (drop a b3)"
    using agree by (intro region_eqI) (simp_all add: len l f)
  also have "\<dots> = take 78 (drop a b2)"
    by (rule region_eqI) (simp_all add: l b3_def store16_def)
  finally have h': "spec_Sum16Carry (take 78 (drop a b')) True = h"
    by (simp add: h_def)
  have 3: "store16 b' (a + 78) h = b'"
  proof (rule store16_id)
    show "b' ! (a + 78) = ucast (h AND 0xFF)" by (rule n'(7))
    show "b' ! (a + 78 + 1) = ucast (drop_bit 8 h AND 0xFF)" unfolding e by (rule n'(8))
  qed
  show ?thesis
    by (simp add: fix_header_def Let_def 1 s' 2 h' 3)
qed

lemma fix_all_nth_outside:
  "(\<And>q. p \<le> q \<Longrightarrow> q < cnt \<Longrightarrow> j < hs ! q + 14 \<or> hs ! q + 80 \<le> j) \<Longrightarrow>
   fix_all buf hs st cnt p ! j = buf ! j"
proof (induction cnt)
  case 0
  then show ?case by (simp add: fix_all_def)
next
  case (Suc cnt)
  show ?case
  proof (cases "p \<le> cnt")
    case True
    have "fix_all buf hs st cnt p ! j = buf ! j"
      using Suc.prems by (intro Suc.IH) simp
    moreover have "j < hs ! cnt + 14 \<or> hs ! cnt + 80 \<le> j"
      using Suc.prems [of cnt] True by simp
    ultimately show ?thesis
      using True by (simp add: fix_all_Suc fix_header_nth)
  next
    case False
    then show ?thesis by (simp add: fix_all_def)
  qed
qed

lemma fix_all_split:
  "p \<le> q \<Longrightarrow> q \<le> cnt \<Longrightarrow>
   fix_all buf hs st cnt p = fix_all (fix_all buf hs st q p) hs st cnt q"
proof -
  assume "p \<le> q" "q \<le> cnt"
  then have "[p..<cnt] = [p..<q] @ [q..<cnt]"
    by (metis le_Suc_ex upt_add_eq_append)
  then show ?thesis
    by (simp add: fix_all_def)
qed

lemma fix_all_fixed:
  "(\<And>q. q < cnt \<Longrightarrow> fix_header buf (hs ! q) (partition_length hs st q) = buf) \<Longrightarrow>
   fix_all buf hs st cnt 0 = buf"
proof (induction cnt)
  case 0
  then show ?case by (simp add: fix_all_def)
next
  case (Suc cnt)
  then show ?case by (simp add: fix_all_Suc)
qed


lemma round_up2_le: "round_up2 n \<le> n + 1"
  by (simp add: round_up2_def)

lemma fix_all_idem:
  assumes ok: "\<forall>q. q < length A \<longrightarrow>
      partition_ok (length buf) (A ! q)
        (partition_length (A @ replicate (16 - length A) SIZE_MAX) (length buf) q)"
    and l: "length A \<le> 16" and s: "sorted_wrt (<) A" and m: "\<forall>a \<in> set A. a < SIZE_MAX"
  shows "fix_all (fix_all buf (header_array A) (length buf) (length A) 0)
           (header_array A) (length buf) (length A) 0 =
         fix_all buf (header_array A) (length buf) (length A) 0"
proof (rule fix_all_fixed)
  fix q assume q: "q < length A"
  define hs where "hs = header_array A"
  define st where "st = length buf"
  define out where "out = fix_all buf hs st (length A) 0"
  define pre where "pre = fix_all buf hs st q 0"
  define a where "a = A ! q"
  define plen where "plen = partition_length hs st q"
  have hq: "hs ! q' = A ! q'" if "q' < length A" for q'
    using that by (simp add: hs_def header_array_nth)
  have pok: "partition_ok st a plen"
    using ok q by (simp add: st_def a_def plen_def hs_def header_array_def)
  then have a80: "a + 80 \<le> st"
    by (simp add: partition_ok_def)
  have split: "out = fix_all (fix_header pre a plen) hs st (length A) (Suc q)"
    using q fix_all_split [of 0 "Suc q" "length A" buf hs st]
    by (simp add: out_def pre_def fix_all_Suc a_def plen_def hq)
  have agree: "out ! j = fix_header pre a plen ! j"
    if j: "a \<le> j" "j < a + 80 + round_up2 plen" for j
    unfolding split
  proof (rule fix_all_nth_outside)
    fix q' assume q': "Suc q \<le> q'" "q' < length A"
    then have n: "q + 1 < length A" by simp
    have g: "a + 80 \<le> A ! (q + 1)"
      using ok q n l s m unfolding a_def by (intro gap_of_ok [where len = "length buf" and st = "length buf"]) simp_all
    have "A ! (q + 1) \<in> set A" using n by simp
    then have b: "A ! (q + 1) < 2 ^ 64"
      using m by (auto simp add: SIZE_MAX_def)
    have "plen = size_sub (size_sub (A ! (q + 1)) a) 80"
      using partition_length_next [OF n l m] by (simp add: plen_def hs_def header_array_def a_def)
    also have "size_sub (A ! (q + 1)) a = A ! (q + 1) - a"
      using g b by (intro size_sub_eq) simp_all
    also have "size_sub (A ! (q + 1) - a) 80 = A ! (q + 1) - a - 80"
      using g b by (intro size_sub_eq) simp_all
    finally have "a + 80 + plen = A ! (q + 1)"
      using g by simp
    then have "j \<le> A ! (q + 1)"
      using j round_up2_le [of plen] by simp
    moreover have "A ! (q + 1) \<le> A ! q'"
    proof (cases "q + 1 = q'")
      case True then show ?thesis by simp
    next
      case False
      then have "q + 1 < q'" using q' by simp
      then have "A ! (q + 1) < A ! q'"
        using s q' by (intro sorted_wrt_nth_less) simp_all
      then show ?thesis by simp
    qed
    ultimately show "j < hs ! q' + 14 \<or> hs ! q' + 80 \<le> j"
      using q' by (simp add: hq)
  qed
  have "fix_header out a plen = out"
    using a80 agree by (intro fix_header_fixed [where buf = pre]) (simp_all add: pre_def out_def st_def)
  then show "fix_header (fix_all buf (header_array A) (length buf) (length A) 0)
          (header_array A ! q) (partition_length (header_array A) (length buf) q) =
        fix_all buf (header_array A) (length buf) (length A) 0"
    using q by (simp add: out_def hs_def st_def a_def plen_def header_array_nth)
qed

section \<open>An image whose data checksum completes the magic string\<close>

lemma length_image_k6: "length image_k6 = 94" "length image_k6_repaired = 94"
  by (simp_all add: image_k6_def image_k6_repaired_def bytes_of_def)

lemma recorded_image_k6: "recorded M32 image_k6 = [0]"
  by (simp add: recorded_def length_image_k6 size_sub_def M32_FIRMWARE_UTIL_FW_HEADER_LENGTH_def
      match_at_def image_k6_def M32_def bytes_of_def upt_rec)

lemma recorded_image_k6_repaired: "recorded M32 image_k6_repaired = [0, 12]"
  by (simp add: recorded_def length_image_k6 size_sub_def M32_FIRMWARE_UTIL_FW_HEADER_LENGTH_def
      match_at_def image_k6_repaired_def M32_def bytes_of_def upt_rec)

lemma partition_length_image_k6: "partition_length (header_array [0]) 94 0 = 14"
  by (simp add: header_array_def partition_length_def M32_FIRMWARE_UTIL_FW_HEADER_LENGTH_def
      M32_FIRMWARE_UTIL_MAX_PARTITIONS_def SIZE_MAX_def size_sub_def)

lemma repair_ok_image_k6: "repair_ok M32 image_k6"
  by (simp add: repair_ok_def recorded_image_k6 length_image_k6 partition_ok_def sum16_ok_def
      partition_length_image_k6 round_up2_def INT_MAX_def)

lemma fix_header_image_k6: "fix_header image_k6 0 14 = image_k6_repaired"
  by (simp add: fix_header_def Let_def round_up2_def eval_list
      byte_of_size_def store16_def spec_Sum16Carry_def le16_def
      image_k6_def image_k6_repaired_def bytes_of_def)

lemma repaired_image_k6: "repaired M32 image_k6 = image_k6_repaired"
  by (simp add: repaired_def recorded_image_k6 length_image_k6 fix_all_def
      partition_length_image_k6 fix_header_image_k6 header_array_nth)

lemma partition_length_image_k6_repaired:
  "partition_length (header_array [0, 12]) 94 0 = 18446744073709551548"
  by (simp add: header_array_def partition_length_def M32_FIRMWARE_UTIL_FW_HEADER_LENGTH_def
      M32_FIRMWARE_UTIL_MAX_PARTITIONS_def SIZE_MAX_def size_sub_def)

lemma not_repair_ok_image_k6_repaired: "\<not> repair_ok M32 image_k6_repaired"
proof
  assume "repair_ok M32 image_k6_repaired"
  then have "\<forall>q. q < 2 \<longrightarrow> partition_ok 94 ([0, 12] ! q) (partition_length (header_array [0, 12]) 94 q)"
    by (simp add: repair_ok_def recorded_image_k6_repaired length_image_k6)
  then have "0 < (2 :: nat) \<longrightarrow> partition_ok 94 ([0, 12] ! 0) (partition_length (header_array [0, 12]) 94 0)"
    by (rule spec)
  then have "partition_ok 94 0 (partition_length (header_array [0, 12]) 94 0)"
    by simp
  then show False
    by (simp add: partition_length_image_k6_repaired partition_ok_def sum16_ok_def INT_MAX_def)
qed

section \<open>Claims about the checksum\<close>

text \<open>
  C7.  \<open>Caclulate16BitSum\<close> (the Sum16Carry of the specification) adds the consecutive
  little-endian 16-bit words of the buffer into a 16-bit sum, adds exactly one whenever
  the sum has become smaller than the word just added, returns \<open>0xFFFF\<close> minus the sum
  in the inverted mode, and stores the result low byte first at \<open>checksumBuffer\<close>.  This
  holds for every buffer the loop can read: \<open>bufferLength\<close> bytes, one more when the
  length is odd, and a length that the \<open>int\<close> counter can reach.
\<close>

theorem Caclulate16BitSum_is_Sum16Carry:
  assumes "buffer + bufferLength + bufferLength mod 2 \<le> length mem"
    and "bufferLength < INT_MAX"
    and "checksumBuffer + 1 < length mem"
  shows "checksum16 mem buffer bufferLength inverted =
           Some (spec_Sum16Carry (take (bufferLength + bufferLength mod 2) (drop buffer mem)) inverted)
       \<and> Caclulate16BitSum mem buffer bufferLength checksumBuffer inverted =
           Some (mem[checksumBuffer :=
                       ucast (spec_Sum16Carry
                         (take (bufferLength + bufferLength mod 2) (drop buffer mem)) inverted AND 0xFF),
                     checksumBuffer + 1 :=
                       ucast (drop_bit 8 (spec_Sum16Carry
                         (take (bufferLength + bufferLength mod 2) (drop buffer mem)) inverted) AND 0xFF)])"
proof -
  have ok: "sum16_ok (length mem) buffer bufferLength"
    using assms by (simp add: sum16_ok_def round_up2_def)
  show ?thesis
    using assms(3) ok
    by (simp add: checksum16_eq Caclulate16BitSum_eq store16_def round_up2_def)
qed

theorem Caclulate16BitSum_is_Sum16Carry_witness:
  "0 + 6 + 6 mod 2 \<le> length [0x01, 0x80, 0xFF, 0x7F, 0x02, 0x80, 0, 0 :: byte]
   \<and> 6 < INT_MAX
   \<and> checksum16 [0x01, 0x80, 0xFF, 0x7F, 0x02, 0x80, 0, 0] 0 6 True = Some 0x7FFC
   \<and> Caclulate16BitSum [0x01, 0x80, 0xFF, 0x7F, 0x02, 0x80, 0, 0] 0 6 6 True =
       Some [0x01, 0x80, 0xFF, 0x7F, 0x02, 0x80, 0xFC, 0x7F]"
  using Caclulate16BitSum_is_Sum16Carry
          [of 0 6 "[0x01, 0x80, 0xFF, 0x7F, 0x02, 0x80, 0, 0]" 6 True]
  by (simp add: INT_MAX_def spec_Sum16Carry_def le16_def)

text \<open>
  C1.  Round trip.  The library signs and encrypts, a signature made with the private key
  of the device verifies with its public key, and decryption undoes encryption;
  allocation, reading and writing succeed and the two calls of
  \<open>CreateSha512VerificatioinSignature\<close> are read as 0.  Then, for every recovery image of
  at most \<open>2 ^ 31 - 353\<close> bytes, \<open>CreateFactoryImageFromRecoveryImage\<close> returns status 0
  and writes a factory image, and \<open>DecryptFactoryImage\<close> on that image with the same
  device returns status 0 and writes exactly the recovery image.  Every length from 1024
  bytes up to that bound is covered, whatever its remainder modulo 16.  Above the bound
  the round trip can fail, because the length decoders widen a signed 32-bit value: the
  failing run follows the theorem.
\<close>

theorem round_trip_returns_recovery_image:
  assumes "signing_works c device" and "crypto_ok c device"
    and "\<And>key iv plain. aes_128_cbc_encrypt c key iv plain \<noteq> None"
    and "length file + 353 \<le> 2 ^ 31"
    and "\<And>size. malloc_ok env size" and "fread_ok env" and "\<And>name. fwrite_ok env name"
    and "no_return_value env 0 = 0" and "no_return_value env 1 = 0"
  shows "CreateFactoryImageFromRecoveryImage c env ''factory.bin'' device file =
           Some (succeeded (factory_image c device file))
       \<and> DecryptFactoryImage c env ''recovery.bin'' device (factory_image c device file) =
           Some (succeeded file)
       \<and> round_trip c env device file = Some (succeeded file)"
proof -
  from assms(3) obtain e where
    enc: "aes_128_cbc_encrypt c (device_key c device) IV (inner_plain c device file) = Some e"
    by blast
  have dbg: "WriteDebugBufferToFile env name = 0" for name
    using assms(7) by (simp add: WriteDebugBufferToFile_def)
  have n: "length file + 272 < 2 ^ 31" and n': "length file + 288 < 2 ^ 31"
    using assms(4) by simp_all
  have b: "CreateFactoryImageFromRecoveryImage c env ''factory.bin'' device file =
           Some (succeeded (factory_image c device file))"
    using assms(5,6,7,8,9) dbg by (intro build_succeeds [OF assms(1,2) enc n']) simp_all
  from assms(2) enc have le: "length e = 16 * (length (inner_plain c device file) div 16 + 1)"
    unfolding crypto_ok_def by blast
  have lp: "length (inner_plain c device file) = length file + 272"
    using assms(1) by (simp add: length_inner_plain [OF assms(1) n])
  have "length file + 353 \<le> 2147483648"
    using assms(4) by simp
  then have "16 * ((length file + 272) div 16 + 1) + 65 < 2147483648"
    by presburger
  then have small: "length e + 65 < 2 ^ 31"
    unfolding le lp by simp
  have d: "DecryptFactoryImage c env ''recovery.bin'' device (factory_image c device file) =
           Some (succeeded file)"
    using assms(5,6,7)
    by (simp add: DecryptFactoryImage_factory_image [OF assms(1,2) enc n small])
  show ?thesis
    using b d by (simp add: round_trip_def succeeded_def)
qed

theorem round_trip_returns_recovery_image_witness:
  "length recovery_1025 = 1025
   \<and> CreateFactoryImageFromRecoveryImage toy env_ok ''factory.bin'' M32 recovery_1025 =
       Some (succeeded (factory_image toy M32 recovery_1025))
   \<and> DecryptFactoryImage toy env_ok ''recovery.bin'' M32 (factory_image toy M32 recovery_1025) =
       Some (succeeded recovery_1025)
   \<and> round_trip toy env_ok M32 recovery_1025 = Some (succeeded recovery_1025)"
proof -
  have sw: "signing_works toy M32" and ok: "crypto_ok toy M32"
    using M32_in_table by (simp_all add: signing_works_toy crypto_ok_toy)
  have l: "length recovery_1025 = 1025"
    by (simp add: recovery_1025_def)
  have e: "malloc_ok env_ok size" "fread_ok env_ok" "fwrite_ok env_ok name"
    "no_return_value env_ok k = 0" for size name k
    by (simp_all add: env_ok_def)
  have t: "aes_128_cbc_encrypt toy key iv plain \<noteq> None" for key iv plain
    by (simp add: encrypt_toy)
  have s: "length recovery_1025 + 353 \<le> 2 ^ 31"
    by (simp add: l)
  show ?thesis
    using round_trip_returns_recovery_image [OF sw ok t s e(1,2,3) e(4) e(4)] l
    by simp
qed

text \<open>
  The failing run.  For a recovery image of \<open>2 ^ 31 - 352\<close> bytes the factory image is
  written, with the length \<open>2 ^ 31 + 1\<close> in its first header.
  \<open>GetDataLengthFromVerificationHeader\<close> reads that length back as
  \<open>2 ^ 64 - 2 ^ 31 + 1\<close>, and \<open>VerifySha512Signture\<close> is called with that many bytes on
  a buffer of \<open>2 ^ 31 + 273\<close> bytes.
\<close>

theorem round_trip_fails_on_large_image:
  "length large_image = 2147483296
   \<and> CreateFactoryImageFromRecoveryImage toy env_ok ''factory.bin'' M32 large_image =
       Some (succeeded (factory_image toy M32 large_image))
   \<and> GetDataLengthFromVerificationHeader (factory_image toy M32 large_image) 0 0 =
       Some (0, 18446744071562067969)
   \<and> length (factory_image toy M32 large_image) = 2147483921
   \<and> DecryptFactoryImage toy env_ok ''recovery.bin'' M32 (factory_image toy M32 large_image) = None
   \<and> round_trip toy env_ok M32 large_image = None"
proof -
  have sw: "signing_works toy M32" and ok: "crypto_ok toy M32"
    using M32_in_table by (simp_all add: signing_works_toy crypto_ok_toy)
  have l: "length large_image = 2147483296"
    by (simp add: large_image_def)
  have e: "malloc_ok env_ok size" "fread_ok env_ok" "fwrite_ok env_ok name"
    "WriteDebugBufferToFile env_ok name = 0" "no_return_value env_ok k = 0" for size name k
    by (simp_all add: env_ok_def WriteDebugBufferToFile_def)
  define encrypted where "encrypted =
    map (\<lambda>b. b XOR toy_mask (device_key toy M32) IV) (pkcs7_pad (inner_plain toy M32 large_image))"
  have enc: "aes_128_cbc_encrypt toy (device_key toy M32) IV (inner_plain toy M32 large_image) =
      Some encrypted"
    by (simp add: encrypt_toy encrypted_def)
  have "length large_image + 272 < 2 ^ 31"
    by (simp add: l)
  then have "length (inner_plain toy M32 large_image) = 2147483568"
    using sw by (simp add: length_inner_plain l)
  then have le: "length encrypted = 2147483584"
    by (simp add: encrypted_def length_pkcs7_pad)
  have b: "CreateFactoryImageFromRecoveryImage toy env_ok ''factory.bin'' M32 large_image =
       Some (succeeded (factory_image toy M32 large_image))"
    using e by (intro build_succeeds [OF sw ok enc]) (simp_all add: l)
  have lf: "length (factory_image toy M32 large_image) = 2147483921"
    using inner_block_of_factory_image(1) [OF sw ok enc] by (simp add: le)
  have g: "GetDataLengthFromVerificationHeader (factory_image toy M32 large_image) 0 0 =
       Some (0, 18446744071562067969)"
    using first_length_of_factory_image [OF sw enc] by (simp add: le)
  have d: "DecryptFactoryImage toy env_ok ''recovery.bin'' M32 (factory_image toy M32 large_image) =
       None"
    using e by (intro DecryptFactoryImage_overflow [OF sw enc]) (simp_all add: le)
  show ?thesis
    using l b g lf d by (simp add: round_trip_def succeeded_def)
qed

section \<open>Claims about updating the headers\<close>

text \<open>
  C2.  When \<open>UpdateHeaderInRecoveryImage\<close> has written its output, then for every
  recorded partition the checksum of the program itself, computed without inversion over
  the 80 bytes of that partition's header in the output (the two checksum bytes
  included), is \<open>0xFFFF\<close>.  Files of at least 80 bytes are the ones \<open>main\<close> hands to
  the operation.
\<close>

theorem header_checksum_invariant:
  assumes "UpdateHeaderInRecoveryImage env outputFile device file = Some r"
    and "outfile r = Some out"
    and "80 \<le> length file" and "device \<in> set M32FirmwareUtilDeviceInfos"
    and "scan_offsets device file = Some offsets" and "a \<in> set offsets"
  shows "checksum16 out a M32_FIRMWARE_UTIL_FW_HEADER_LENGTH False = Some 0xFFFF"
proof -
  define A where "A = recorded device file"
  have run: "repair_ok device file" "out = repaired device file"
    using assms(1,2) UpdateHeader_eq [OF assms(3,4), of env outputFile]
    by (auto simp add: failed_def succeeded_def split: if_splits)
  have "offsets = A"
    using assms(5) scan_offsets_recorded [OF assms(3,4)] by (simp add: A_def)
  then obtain p where p: "p < length A" "a = A ! p"
    using assms(6) by (auto simp add: in_set_conv_nth)
  have ok: "\<forall>q. q < length A \<longrightarrow>
      partition_ok (length file) (A ! q) (partition_length (A @ replicate (16 - length A) SIZE_MAX) (length file) q)"
    using run(1) by (simp add: repair_ok_def A_def header_array_def)
  have l: "length A \<le> 16" by (simp add: A_def length_recorded)
  have s: "sorted_wrt (<) A" by (simp add: A_def recorded_sorted)
  have m: "\<forall>x \<in> set A. x < SIZE_MAX" by (auto simp add: A_def recorded_lt_SIZE_MAX)
  have gaps: "\<forall>q. p < q \<and> q < length A \<longrightarrow> header_array A ! p + 80 \<le> header_array A ! q"
    using gaps_of_ok [OF ok l s m] p by (simp add: header_array_nth)
  have inb: "a + 80 \<le> length file"
    using ok p by (simp add: partition_ok_def)
  have "spec_Sum16Carry (take 80 (drop (header_array A ! p)
          (fix_all file (header_array A) (length file) (length A) 0))) False = 0xFFFF"
    using p(1) gaps inb p(2) by (intro fix_all_header_sum) (simp_all add: header_array_nth)
  then have "spec_Sum16Carry (take 80 (drop a out)) False = 0xFFFF"
    using p by (simp add: run(2) repaired_def A_def header_array_nth)
  moreover have "sum16_ok (length out) a 80"
    using inb by (simp add: run(2) repaired_def sum16_ok_def round_up2_def INT_MAX_def)
  ultimately show ?thesis
    by (simp add: checksum16_eq M32_FIRMWARE_UTIL_FW_HEADER_LENGTH_def round_up2_def)
qed

theorem header_checksum_invariant_witness:
  "UpdateHeaderInRecoveryImage env_ok ''out.bin'' M32 image_one = Some (succeeded image_one_repaired)
   \<and> outfile (succeeded image_one_repaired) = Some image_one_repaired
   \<and> 80 \<le> length image_one \<and> M32 \<in> set M32FirmwareUtilDeviceInfos
   \<and> scan_offsets M32 image_one = Some [0]
   \<and> checksum16 image_one_repaired 0 M32_FIRMWARE_UTIL_FW_HEADER_LENGTH False = Some 0xFFFF"
proof -
  have o: "outfile (succeeded image_one_repaired) = Some image_one_repaired"
    by (simp add: succeeded_def)
  have l: "80 \<le> length image_one"
    by (simp add: length_image_one)
  have s: "scan_offsets M32 image_one = Some [0]"
    using scan_offsets_recorded [OF l M32_in_table] by (simp add: recorded_image_one)
  have "checksum16 image_one_repaired 0 M32_FIRMWARE_UTIL_FW_HEADER_LENGTH False = Some 0xFFFF"
    by (rule header_checksum_invariant [OF run_image_one o l M32_in_table s]) simp
  then show ?thesis
    using run_image_one o l M32_in_table s by simp
qed

text \<open>
  C3.  The status of \<open>CreateSha512VerificatioinSignature\<close>.  The function keeps its
  result in the local variable \<open>status\<close> and ends without a \<open>return\<close> statement, so what
  the caller compares with 0 is not that status.  With a library that signs, a buffer
  of 1025 bytes and room for the signature: the signature is appended and \<open>status\<close> is
  0 while the caller reads 1; with a passphrase that does not open the key, \<open>status\<close> is
  1 while the caller reads 0; and \<open>CreateFactoryImageFromRecoveryImage\<close> reports that it
  is unable to create the signature although signing has worked.
\<close>

theorem signature_status_is_not_returned:
  "CreateSha512VerificatioinSignature toy 1 (recovery_1025 @ replicate 256 0) 0 1025 M32 =
       Some (recovery_1025 @ toy_sign M32PrivateKey (toy_sha512 recovery_1025), 0, 1)
   \<and> CreateSha512VerificatioinSignature toy 0 (recovery_1025 @ replicate 256 0) 0 1025
         (M32\<lparr>Passphrase := ''none''\<rparr>) =
       Some (recovery_1025 @ replicate 256 0, 1, 0)
   \<and> CreateFactoryImageFromRecoveryImage toy env_returns_one ''factory.bin'' M32 recovery_1025 =
       Some (failed UnableToCreateSignature)"
proof -
  have sw: "signing_works toy M32"
    using M32_in_table by (simp add: signing_works_toy)
  have l: "length recovery_1025 = 1025"
    by (simp add: recovery_1025_def)
  have w: "win (recovery_1025 @ replicate 256 0) 0 1025 = recovery_1025"
    by (simp add: win_def l)
  have 1: "CreateSha512VerificatioinSignature toy 1 (recovery_1025 @ replicate 256 0) 0 1025 M32 =
       Some (recovery_1025 @ toy_sign M32PrivateKey (toy_sha512 recovery_1025), 0, 1)"
    by (simp add: CreateSha512VerificatioinSignature_eq [OF sw] l w signature_of_toy overwrite_def)
  have 2: "CreateSha512VerificatioinSignature toy 0 (recovery_1025 @ replicate 256 0) 0 1025
         (M32\<lparr>Passphrase := ''none''\<rparr>) =
       Some (recovery_1025 @ replicate 256 0, 1, 0)"
    by (simp add: CreateSha512VerificatioinSignature_def read_bytes_eq l toy_def M32_def)
  have 3: "CreateFactoryImageFromRecoveryImage toy env_returns_one ''factory.bin'' M32
       recovery_1025 = Some (failed UnableToCreateSignature)"
    by (simp add: CreateFactoryImageFromRecoveryImage_eq [OF sw] env_returns_one_def)
  show ?thesis
    using 1 2 3 by simp
qed

text \<open>
  C4.  The inner signature.  \<open>CreateFactoryImageFromRecoveryImage\<close> passes
  \<open>recoveryImage\<close>, not \<open>recoveryImageWithHeader\<close>, to
  \<open>CreateSha512VerificatioinSignature\<close>: the inner 256-byte signature is the signature of
  the digest of the recovery image alone.  For a library that signs for the device and
  whose decryption undoes encryption, and an image of less than \<open>2 ^ 31 - 272\<close> bytes:
  when a factory image has been written, decrypting its bytes from offset 81 up to the
  outer signature gives the inner verification header, the recovery image and the
  signature of the digest of the recovery image.
\<close>

theorem inner_signature_covers_image_only:
  assumes "signing_works c device" and "crypto_ok c device"
    and "length file + 272 < 2 ^ 31"
    and "CreateFactoryImageFromRecoveryImage c env outputFile device file = Some r"
    and "outfile r = Some factory"
  shows "\<exists>digest priv sig.
           sha512 c file = Some digest
           \<and> pem_read_private_key c (PrivateKey device) (Passphrase device) = Some priv
           \<and> evp_sign c priv digest = Some sig \<and> length sig = 256
           \<and> aes_128_cbc_decrypt c (device_key c device) IV
                (take (length factory - 337) (drop 81 factory)) =
               Some (verification_header (length file) @ file @ sig)"
proof -
  from build_output [OF assms(1,4,5)] obtain e where
    f: "factory = factory_image c device file"
    and enc: "aes_128_cbc_encrypt c (device_key c device) IV (inner_plain c device file) = Some e"
    by auto
  have "aes_128_cbc_decrypt c (device_key c device) IV
          (take (length factory - 337) (drop 81 factory)) = Some (inner_plain c device file)"
    using inner_block_of_factory_image [OF assms(1,2) enc] by (simp add: f win_def)
  then have d: "aes_128_cbc_decrypt c (device_key c device) IV
          (take (length factory - 337) (drop 81 factory)) =
      Some (verification_header (length file) @ file @ signature_of c device file)"
    by (simp add: length_inner_plain [OF assms(1,3)])
  from signature_of_works [OF assms(1), of "file"] show ?thesis
    using d by blast
qed

theorem inner_signature_covers_image_only_witness:
  "CreateFactoryImageFromRecoveryImage toy env_ok ''factory.bin'' M32 recovery_1025 =
       Some (succeeded (factory_image toy M32 recovery_1025))
   \<and> evp_sign toy M32PrivateKey (toy_sha512 recovery_1025) =
       Some (toy_sign M32PrivateKey (toy_sha512 recovery_1025))
   \<and> aes_128_cbc_decrypt toy (device_key toy M32) IV
        (take (length (factory_image toy M32 recovery_1025) - 337)
           (drop 81 (factory_image toy M32 recovery_1025))) =
       Some (verification_header 1025 @ recovery_1025
               @ toy_sign M32PrivateKey (toy_sha512 recovery_1025))"
proof -
  have sw: "signing_works toy M32" and ok: "crypto_ok toy M32"
    using M32_in_table by (simp_all add: signing_works_toy crypto_ok_toy)
  have l: "length recovery_1025 = 1025"
    by (simp add: recovery_1025_def)
  have e: "malloc_ok env_ok size" "fread_ok env_ok" "fwrite_ok env_ok name"
    "WriteDebugBufferToFile env_ok name = 0" "no_return_value env_ok k = 0" for size name k
    by (simp_all add: env_ok_def WriteDebugBufferToFile_def)
  have b: "CreateFactoryImageFromRecoveryImage toy env_ok ''factory.bin'' M32 recovery_1025 =
       Some (succeeded (factory_image toy M32 recovery_1025))"
    using e by (intro build_succeeds [OF sw ok encrypt_toy]) (simp_all add: l)
  have o: "outfile (succeeded (factory_image toy M32 recovery_1025)) =
       Some (factory_image toy M32 recovery_1025)"
    by (simp add: succeeded_def)
  have s: "length recovery_1025 + 272 < 2 ^ 31"
    by (simp add: l)
  have t: "sha512 toy data = Some (toy_sha512 data)"
    "pem_read_private_key toy (PrivateKey M32) (Passphrase M32) = Some M32PrivateKey"
    "evp_sign toy k digest = Some (toy_sign k digest)" for data k digest
    by (simp_all add: toy_def M32_def)
  show ?thesis
    using inner_signature_covers_image_only [OF sw ok s b o] b
    by (auto simp add: t l)
qed

theorem inner_signature_does_not_cover_header:
  "CreateFactoryImageFromRecoveryImage toy env_ok ''factory.bin'' M32 recovery_1025 =
       Some (succeeded (factory_image toy M32 recovery_1025))
   \<and> aes_128_cbc_decrypt toy (device_key toy M32) IV
        (take (length (factory_image toy M32 recovery_1025) - 337)
           (drop 81 (factory_image toy M32 recovery_1025))) =
       Some (verification_header 1025 @ recovery_1025
               @ toy_sign M32PrivateKey (toy_sha512 recovery_1025))
   \<and> toy_sign M32PrivateKey (toy_sha512 recovery_1025) \<noteq>
       toy_sign M32PrivateKey (toy_sha512 (verification_header 1025 @ recovery_1025))"
proof -
  have sw: "signing_works toy M32" and ok: "crypto_ok toy M32"
    using M32_in_table by (simp_all add: signing_works_toy crypto_ok_toy)
  have l: "length recovery_1025 = 1025"
    by (simp add: recovery_1025_def)
  have e: "malloc_ok env_ok size" "fread_ok env_ok" "fwrite_ok env_ok name"
    "WriteDebugBufferToFile env_ok name = 0" "no_return_value env_ok k = 0" for size name k
    by (simp_all add: env_ok_def WriteDebugBufferToFile_def)
  have b: "CreateFactoryImageFromRecoveryImage toy env_ok ''factory.bin'' M32 recovery_1025 =
       Some (succeeded (factory_image toy M32 recovery_1025))"
    using e by (intro build_succeeds [OF sw ok encrypt_toy]) (simp_all add: l)
  have s: "length recovery_1025 + 272 < 2 ^ 31"
    by (simp add: l)
  have d: "aes_128_cbc_decrypt toy (device_key toy M32) IV
        (take (length (factory_image toy M32 recovery_1025) - 337)
           (drop 81 (factory_image toy M32 recovery_1025))) =
       Some (verification_header 1025 @ recovery_1025
               @ toy_sign M32PrivateKey (toy_sha512 recovery_1025))"
    using inner_block_of_factory_image [OF sw ok encrypt_toy, of recovery_1025]
      length_inner_plain [OF sw s]
    by (simp add: win_def l signature_of_toy)
  have "hd (toy_sign M32PrivateKey (toy_sha512 recovery_1025)) = 0x27"
    by (simp add: hd_toy_sign recovery_1025_def)
  moreover have "hd (toy_sign M32PrivateKey (toy_sha512 (verification_header 1025 @ recovery_1025)))
      = 0x4D"
    by (simp add: hd_toy_sign verification_header_def with_sums_def bytes_of_def)
  ultimately have "toy_sign M32PrivateKey (toy_sha512 recovery_1025) \<noteq>
       toy_sign M32PrivateKey (toy_sha512 (verification_header 1025 @ recovery_1025))"
    by auto
  then show ?thesis
    using b d by simp
qed

text \<open>
  C5.  Idempotence.  When \<open>UpdateHeaderInRecoveryImage\<close> has written its output for an
  image of at least 80 bytes and the search loop records in that output the same offsets
  as in the input, then a second run on the output, in an environment where allocation,
  reading and writing succeed, returns status 0 and writes the same bytes again.  The
  condition on the search is needed: the checksum bytes that the first run stores in a
  header can complete a further occurrence of the magic string.
\<close>

theorem repair_is_idempotent_when_scan_agrees:
  assumes "80 \<le> length file" and "device \<in> set M32FirmwareUtilDeviceInfos"
    and "UpdateHeaderInRecoveryImage env outputFile device file = Some r"
    and "outfile r = Some out"
    and "scan_image device out = scan_image device file"
    and "malloc_ok env' (length out)" and "fread_ok env'" and "fwrite_ok env' outputFile'"
  shows "UpdateHeaderInRecoveryImage env' outputFile' device out = Some (succeeded out)"
proof -
  define A where "A = recorded device file"
  have run: "repair_ok device file" "out = repaired device file" "A \<noteq> []"
    using assms(3,4) UpdateHeader_eq [OF assms(1,2), of env outputFile]
    by (auto simp add: failed_def succeeded_def A_def split: if_splits)
  have lo: "length out = length file"
    by (simp add: run(2) repaired_def)
  then have lo80: "80 \<le> length out"
    using assms(1) by simp
  have "header_array (recorded device out) = header_array A
        \<and> length (recorded device out) = length A"
    using assms(5) scan_image_recorded [OF lo80 assms(2)] scan_image_recorded [OF assms(1,2)]
    by (simp add: A_def)
  then have rec: "recorded device out = A"
    unfolding header_array_def by (metis append_eq_append_conv)
  have ok: "\<forall>q. q < length A \<longrightarrow>
      partition_ok (length file) (A ! q)
        (partition_length (A @ replicate (16 - length A) SIZE_MAX) (length file) q)"
    using run(1) by (simp add: repair_ok_def A_def header_array_def)
  have l: "length A \<le> 16" by (simp add: A_def length_recorded)
  have s: "sorted_wrt (<) A" by (simp add: A_def recorded_sorted)
  have m: "\<forall>x \<in> set A. x < SIZE_MAX" by (auto simp add: A_def recorded_lt_SIZE_MAX)
  have o: "out = fix_all file (header_array A) (length file) (length A) 0"
    by (simp add: run(2) repaired_def A_def)
  have idem: "fix_all out (header_array A) (length file) (length A) 0 = out"
    unfolding o by (rule fix_all_idem [OF ok l s m])
  have ok': "repair_ok device out"
    using run(1) by (simp add: repair_ok_def rec lo A_def)
  have fixed: "repaired device out = out"
    using idem by (simp add: repaired_def rec lo)
  show ?thesis
    using UpdateHeader_eq [OF lo80 assms(2), of env' outputFile'] assms(6,7,8) ok' fixed run(3)
    by (simp add: rec)
qed

theorem repair_is_idempotent_when_scan_agrees_witness:
  "UpdateHeaderInRecoveryImage env_ok ''out.bin'' M32 image_one = Some (succeeded image_one_repaired)
   \<and> scan_image M32 image_one_repaired = scan_image M32 image_one
   \<and> UpdateHeaderInRecoveryImage env_ok ''again.bin'' M32 image_one_repaired =
       Some (succeeded image_one_repaired)"
proof -
  have o: "outfile (succeeded image_one_repaired) = Some image_one_repaired"
    by (simp add: succeeded_def)
  have l: "80 \<le> length image_one"
    by (simp add: length_image_one)
  have l': "length image_one_repaired = 84"
    by (simp add: image_one_repaired_def bytes_of_def)
  have "recorded M32 image_one_repaired = [0]"
    by (simp add: recorded_def l' size_sub_def M32_FIRMWARE_UTIL_FW_HEADER_LENGTH_def
        match_at_def image_one_repaired_def M32_def bytes_of_def upt_rec)
  then have s: "scan_image M32 image_one_repaired = scan_image M32 image_one"
    using scan_image_recorded [of image_one_repaired M32] scan_image_recorded [OF l M32_in_table]
      M32_in_table
    by (simp add: l' recorded_image_one)
  have e: "malloc_ok env_ok n" "fread_ok env_ok" "fwrite_ok env_ok name" for n name
    by (simp_all add: env_ok_def)
  show ?thesis
    using repair_is_idempotent_when_scan_agrees [OF l M32_in_table run_image_one o s e]
      run_image_one s
    by simp
qed

theorem repair_not_idempotent_on_image_k6:
  "UpdateHeaderInRecoveryImage env_ok ''out.bin'' M32 image_k6 = Some (succeeded image_k6_repaired)
   \<and> scan_offsets M32 image_k6 = Some [0]
   \<and> scan_offsets M32 image_k6_repaired = Some [0, 12]
   \<and> UpdateHeaderInRecoveryImage env_ok ''again.bin'' M32 image_k6_repaired = None"
proof -
  have l: "80 \<le> length image_k6" "80 \<le> length image_k6_repaired"
    by (simp_all add: length_image_k6)
  have 1: "UpdateHeaderInRecoveryImage env_ok ''out.bin'' M32 image_k6 =
      Some (succeeded image_k6_repaired)"
    using UpdateHeader_eq [OF l(1) M32_in_table, of env_ok "''out.bin''"]
    by (simp add: repair_ok_image_k6 recorded_image_k6 repaired_image_k6 env_ok_def)
  have 2: "UpdateHeaderInRecoveryImage env_ok ''again.bin'' M32 image_k6_repaired = None"
    using UpdateHeader_eq [OF l(2) M32_in_table, of env_ok "''again.bin''"]
    by (simp add: not_repair_ok_image_k6_repaired env_ok_def)
  have 3: "scan_offsets M32 image_k6 = Some [0]"
    "scan_offsets M32 image_k6_repaired = Some [0, 12]"
    using scan_offsets_recorded [OF l(1) M32_in_table] scan_offsets_recorded [OF l(2) M32_in_table]
    by (simp_all add: recorded_image_k6 recorded_image_k6_repaired)
  show ?thesis
    using 1 2 3 by simp
qed

section \<open>Claims about the headers of the factory image\<close>

text \<open>
  C6.  \<open>CreateAes128CbcEncryptionHeader\<close> writes, at any place of 16 bytes inside the
  buffer, the magic \<open>MH01\<close>, the tag \<open>21 00 00 00\<close> at offset 4, the four low bytes of
  the length in little-endian order at offset 8, the marker \<open>2B 1A\<close>, and then the sum
  modulo 256 and the exclusive or of the 14 bytes before.  The header written by
  \<open>CreateSha512VerificatioinHeader\<close> starts with the same magic and ends with the same
  pair of checksum bytes over its own first 14 bytes.  \<open>GetDataLengthFromEncryptionHeader\<close>
  on the header written reads the four bytes at offsets 8 to 11, which gives back every
  length below \<open>2 ^ 31\<close>.
\<close>

theorem encryption_header_layout:
  assumes "buffer + 16 \<le> length mem"
  shows "CreateAes128CbcEncryptionHeader mem buffer imageSize =
           Some (overwrite mem buffer (encryption_header imageSize), 0)
       \<and> CreateSha512VerificatioinHeader mem buffer imageSize =
           Some (overwrite mem buffer (verification_header imageSize), 0)
       \<and> encryption_header imageSize =
           [0x4D, 0x48, 0x30, 0x31, 0x21, 0x00, 0x00, 0x00,
            byte_of_size imageSize 0, byte_of_size imageSize 8,
            byte_of_size imageSize 16, byte_of_size imageSize 24, 0x2B, 0x1A,
            fst (spec_ByteSumXor (take 14 (encryption_header imageSize))),
            snd (spec_ByteSumXor (take 14 (encryption_header imageSize)))]
       \<and> take 4 (encryption_header imageSize) = bytes_of ''MH01''
       \<and> take 4 (verification_header imageSize) = bytes_of ''MH01''
       \<and> drop 14 (verification_header imageSize) =
           [fst (spec_ByteSumXor (take 14 (verification_header imageSize))),
            snd (spec_ByteSumXor (take 14 (verification_header imageSize)))]
       \<and> GetDataLengthFromEncryptionHeader
             (overwrite mem buffer (encryption_header imageSize)) buffer dataLength =
           Some (0, int_to_size_t (le32_int (encryption_header imageSize ! 8)
                                    (encryption_header imageSize ! 9)
                                    (encryption_header imageSize ! 10)
                                    (encryption_header imageSize ! 11)))
       \<and> (imageSize < 2 ^ 31 \<longrightarrow>
            GetDataLengthFromEncryptionHeader
              (overwrite mem buffer (encryption_header imageSize)) buffer dataLength =
            Some (0, imageSize))"
proof -
  have w: "win (overwrite mem buffer (encryption_header imageSize)) buffer 16 =
             encryption_header imageSize"
    using assms by (simp add: win_overwrite_same)
  have l: "buffer + 16 \<le> length (overwrite mem buffer (encryption_header imageSize))"
    using assms by simp
  have n: "encryption_header imageSize ! 8 = byte_of_size imageSize 0"
    "encryption_header imageSize ! 9 = byte_of_size imageSize 8"
    "encryption_header imageSize ! 10 = byte_of_size imageSize 16"
    "encryption_header imageSize ! 11 = byte_of_size imageSize 24"
    by (simp_all add: encryption_header_def with_sums_def bytes_of_def length_bytes_le_def)
  have v: "drop 14 (verification_header imageSize) =
           [fst (spec_ByteSumXor (take 14 (verification_header imageSize))),
            snd (spec_ByteSumXor (take 14 (verification_header imageSize)))]"
    by (simp add: verification_header_def with_sums_def bytes_of_def length_bytes_le_def)
  have m: "take 4 (encryption_header imageSize) = bytes_of ''MH01''"
    "take 4 (verification_header imageSize) = bytes_of ''MH01''"
    by (simp_all add: encryption_header_def verification_header_def with_sums_def bytes_of_def)
  show ?thesis
    using assms encryption_header_bytes [of imageSize] v m
    by (simp add: CreateAes128CbcEncryptionHeader_eq CreateSha512VerificatioinHeader_eq
          GetDataLengthFromEncryptionHeader_eq [OF l w] n decode_length)
qed

theorem encryption_header_layout_witness:
  "0 + 16 \<le> length (replicate 16 (0 :: byte))
   \<and> CreateAes128CbcEncryptionHeader (replicate 16 0) 0 1296 =
       Some ([0x4D, 0x48, 0x30, 0x31, 0x21, 0x00, 0x00, 0x00, 0x10, 0x05, 0x00, 0x00,
              0x2B, 0x1A, 0x71, 0x01], 0)
   \<and> (1296 :: nat) < 2 ^ 31
   \<and> GetDataLengthFromEncryptionHeader
         [0x4D, 0x48, 0x30, 0x31, 0x21, 0x00, 0x00, 0x00, 0x10, 0x05, 0x00, 0x00,
          0x2B, 0x1A, 0x71, 0x01] 0 0 = Some (0, 1296)"
proof -
  have h: "encryption_header 1296 =
      [0x4D, 0x48, 0x30, 0x31, 0x21, 0x00, 0x00, 0x00, 0x10, 0x05, 0x00, 0x00,
       0x2B, 0x1A, 0x71, 0x01]"
    by (simp add: encryption_header_def with_sums_def bytes_of_def length_bytes_le_def
          byte_of_size_def spec_ByteSumXor_def)
  have o: "overwrite (replicate 16 0) 0 (encryption_header 1296) = encryption_header 1296"
    by (simp add: overwrite_def)
  show ?thesis
    using encryption_header_layout [of 0 "replicate 16 0" 1296 0]
    by (simp add: o) (auto simp add: h)
qed



text \<open>
  C9, as the code has it.  For every image of at least 80 bytes (smaller files are turned
  away by \<open>main\<close>) and every device of the table, the search records the first
  \<open>min 16 total\<close> offsets below \<open>st_size - 80\<close> at which the magic string occurs, in
  ascending order, where \<open>total\<close> counts the occurrences below that bound; an occurrence
  in the last 80 bytes of the image is not looked at.  Once the 16th offset is recorded
  the loop is left: whatever the loop bound beyond it, even one far outside the buffer,
  the result is the same, so no later offset is examined.
\<close>

theorem scan_records_first_16_below_bound:
  assumes "80 \<le> length file" and "device \<in> set M32FirmwareUtilDeviceInfos"
  shows "scan_offsets device file =
           Some (take 16 (filter (match_at file (bytes_of (RecoveryHeaderStart device)))
                            [0..<size_sub (length file) 80]))
       \<and> sorted_wrt (<) (recorded device file)
       \<and> length (recorded device file) =
           min 16 (length (filter (match_at file (bytes_of (RecoveryHeaderStart device)))
                            [0..<size_sub (length file) 80]))
       \<and> (\<forall>bound. length (recorded device file) = 16 \<and> size_sub (length file) 80 \<le> bound \<longrightarrow>
             find_partitions file (bytes_of (RecoveryHeaderStart device)) bound 0
               (replicate 16 SIZE_MAX) 0 = Some (recorded device file, 16))"
proof -
  have s: "scan_image device file =
      Some (header_array (recorded device file), length (recorded device file))"
    by (rule scan_image_recorded [OF assms])
  have stop: "find_partitions file (bytes_of (RecoveryHeaderStart device)) bound 0
               (replicate 16 SIZE_MAX) 0 = Some (recorded device file, 16)"
    if "length (recorded device file) = 16" "size_sub (length file) 80 \<le> bound" for bound
  proof -
    have "find_partitions file (bytes_of (RecoveryHeaderStart device)) (size_sub (length file) 80) 0
               (replicate 16 SIZE_MAX) 0 = Some (recorded device file, 16)"
      using s that(1)
      by (simp add: scan_image_def header_array_def M32_FIRMWARE_UTIL_FW_HEADER_LENGTH_def
            M32_FIRMWARE_UTIL_MAX_PARTITIONS_def)
    then show ?thesis
      by (rule find_partitions_stop [OF _ _ that(2)]) simp
  qed
  show ?thesis
    using scan_offsets_recorded [OF assms] recorded_sorted [of device "file"] stop
    by (simp add: recorded_def M32_FIRMWARE_UTIL_FW_HEADER_LENGTH_def min.commute)
qed


theorem scan_records_first_16_below_bound_witness:
  "80 \<le> length image_one \<and> M32 \<in> set M32FirmwareUtilDeviceInfos
   \<and> scan_offsets M32 image_one = Some [0]"
  using scan_records_first_16_below_bound [of image_one M32]
    recorded_image_one [unfolded recorded_def M32_FIRMWARE_UTIL_FW_HEADER_LENGTH_def]
  by (simp add: length_image_one M32_in_table)

text \<open>
  C9 as stated speaks of the magic-match positions of the input image.  The image that
  consists of one partition header and nothing else has the magic string at offset 0,
  but the loop bound \<open>st_size - 80\<close> is 0 and nothing is recorded.
\<close>

theorem scan_misses_magic_in_last_80_bytes:
  "scan_offsets M32 image_header_only = Some []
   \<and> take 16 (spec_magic_positions (bytes_of (RecoveryHeaderStart M32)) image_header_only) = [0]
   \<and> scan_offsets M32 image_header_only \<noteq>
       Some (take 16 (spec_magic_positions (bytes_of (RecoveryHeaderStart M32)) image_header_only))"
proof -
  have l: "length image_header_only = 80"
    by (simp add: image_header_only_def bytes_of_def)
  have "recorded M32 image_header_only = []"
    by (simp add: recorded_def l size_sub_def M32_FIRMWARE_UTIL_FW_HEADER_LENGTH_def)
  then have a: "scan_offsets M32 image_header_only = Some []"
    using scan_offsets_recorded [of image_header_only M32] l M32_in_table by simp
  have b: "spec_magic_positions (bytes_of (RecoveryHeaderStart M32)) image_header_only = [0]"
    by (simp add: spec_magic_positions_def l image_header_only_def M32_def bytes_of_def
          upt_rec eval_list)
  show ?thesis
    by (simp add: a b)
qed

text \<open>
  C10.  Determinism.  The salt and the initialization vector are constants of the
  program.  With a library that signs for the device, two runs of
  \<open>CreateFactoryImageFromRecoveryImage\<close> on the same recovery image and device that both
  write a factory image write the same bytes, whatever the two environments are (success
  of the system calls, debug files, content of fresh memory, names of the output files).
  The image holds the salt \<open>65 FC 43 BC 67 A3 23 35\<close> at offset 73 and the text of the
  initialization vector at offset 32.
\<close>

theorem build_is_deterministic:
  assumes "signing_works c device"
    and "CreateFactoryImageFromRecoveryImage c env1 outputFile1 device file = Some r1"
    and "outfile r1 = Some factory1"
    and "CreateFactoryImageFromRecoveryImage c env2 outputFile2 device file = Some r2"
    and "outfile r2 = Some factory2"
  shows "factory1 = factory2
       \<and> salt = [0x65, 0xFC, 0x43, 0xBC, 0x67, 0xA3, 0x23, 0x35]
       \<and> take 8 (drop 73 factory1) = salt
       \<and> take 32 (drop 32 factory1) = bytes_of ''99380c25aecc79d39b145ac04353bbe9''"
proof -
  have 1: "factory1 = factory_image c device file"
    by (rule build_output(1) [OF assms(1,2,3)])
  have 2: "factory2 = factory_image c device file"
    by (rule build_output(1) [OF assms(1,4,5)])
  have i: "take 32 iv_text = bytes_of ''99380c25aecc79d39b145ac04353bbe9''"
    by (simp add: iv_text_def IV_def hex_digit_def bytes_of_def)
  have s: "take 8 (drop 73 (factory_image c device file)) = salt"
    by (simp add: factory_image_def outer_block_def)
  have t: "take 32 (drop 32 (factory_image c device file)) = take 32 iv_text"
    by (simp add: factory_image_def outer_block_def)
  show ?thesis
    using 1 2 s t i by (simp add: salt_def)
qed

theorem build_is_deterministic_witness:
  "CreateFactoryImageFromRecoveryImage toy env_ok ''factory.bin'' M32 recovery_1025 =
       Some (succeeded (factory_image toy M32 recovery_1025))
   \<and> CreateFactoryImageFromRecoveryImage toy env_debug ''other.bin'' M32 recovery_1025 =
       Some (succeeded (factory_image toy M32 recovery_1025))
   \<and> heap env_ok 0 \<noteq> heap env_debug 0
   \<and> take 8 (drop 73 (factory_image toy M32 recovery_1025)) =
       [0x65, 0xFC, 0x43, 0xBC, 0x67, 0xA3, 0x23, 0x35]"
proof -
  have sw: "signing_works toy M32" and ok: "crypto_ok toy M32"
    using M32_in_table by (simp_all add: signing_works_toy crypto_ok_toy)
  have l: "length recovery_1025 = 1025"
    by (simp add: recovery_1025_def)
  have e: "malloc_ok env_ok size" "fread_ok env_ok" "fwrite_ok env_ok name"
    "WriteDebugBufferToFile env_ok name = 0" "no_return_value env_ok k = 0" for size name k
    by (simp_all add: env_ok_def WriteDebugBufferToFile_def)
  have e': "malloc_ok env_debug size" "fread_ok env_debug" "fwrite_ok env_debug name"
    "WriteDebugBufferToFile env_debug name = 0" "no_return_value env_debug k = 0" for size name k
    by (simp_all add: env_debug_def WriteDebugBufferToFile_def)
  have b: "CreateFactoryImageFromRecoveryImage toy env_ok ''factory.bin'' M32 recovery_1025 =
       Some (succeeded (factory_image toy M32 recovery_1025))"
    using e by (intro build_succeeds [OF sw ok encrypt_toy]) (simp_all add: l)
  have b': "CreateFactoryImageFromRecoveryImage toy env_debug ''other.bin'' M32 recovery_1025 =
       Some (succeeded (factory_image toy M32 recovery_1025))"
    using e' by (intro build_succeeds [OF sw ok encrypt_toy]) (simp_all add: l)
  have o: "outfile (succeeded (factory_image toy M32 recovery_1025)) =
       Some (factory_image toy M32 recovery_1025)"
    by (simp add: succeeded_def)
  have h: "heap env_ok 0 \<noteq> heap env_debug 0"
    by (simp add: env_ok_def env_debug_def)
  show ?thesis
    using build_is_deterministic [OF sw b o b' o] b b' h
    by simp
qed

end
